theory Spec2Isabelle
  imports Main "HOL-Library.AList"
begin

section \<open>Data of the two remote systems\<close>

text \<open>
  The values exchanged with Coder (package \<open>codersdk\<close>) and with Google Workspace
  (package \<open>admin\<close>) are declared outside the repository; the records below keep the
  fields that package \<open>gcsync\<close> and the stand-alone \<open>main.go\<close> read or write.
  A \<open>uuid.UUID\<close> is represented by its canonical text, the value of \<open>ID.String()\<close>.
\<close>

type_synonym uuid = string

definition uuid_Nil :: uuid where
  "uuid_Nil = ''00000000-0000-0000-0000-000000000000''"

text \<open>\<open>codersdk.LoginType\<close> is a Go string type; \<open>LoginTypeOIDC\<close> is one of its constants.\<close>

definition LoginTypeOIDC :: string where
  "LoginTypeOIDC = ''oidc''"

record User =
  User_ID :: uuid
  User_Username :: string
  User_Email :: string
  User_LoginType :: string

record Group =
  Group_ID :: uuid
  Group_Name :: string
  Group_OrganizationID :: uuid
  Group_Members :: "uuid list"

record Organization =
  Org_ID :: uuid
  Org_IsDefault :: bool

text \<open>\<open>codersdk.GroupArguments\<close>: an empty field is a filter that is not set.\<close>

record GroupArguments =
  Organization :: string
  HasMember :: string

record CreateGroupRequest =
  Name :: string
  DisplayName :: string
  AvatarURL :: string
  QuotaAllowance :: int

text \<open>
  \<open>codersdk.PatchGroupRequest\<close>: the program only ever touches the two user lists, every
  other field keeps its zero value.
\<close>

record PatchGroupRequest =
  AddUsers :: "string list"
  RemoveUsers :: "string list"

text \<open>\<open>admin.Group\<close> of the Google directory.\<close>

record admin_Group =
  GName :: string
  GEmail :: string

section \<open>Library functions the program calls\<close>

text \<open>Go's \<open>strings.HasSuffix\<close>: \<open>len(s) >= len(suffix) && s[len(s)-len(suffix):] == suffix\<close>.\<close>

definition HasSuffix :: "string \<Rightarrow> string \<Rightarrow> bool" where
  "HasSuffix s suf \<longleftrightarrow> length suf \<le> length s \<and> drop (length s - length suf) s = suf"

text \<open>\<open>strings.ReplaceAll(s, " ", "")\<close>: every space byte is dropped.\<close>

definition removeSpaces :: "string \<Rightarrow> string" where
  "removeSpaces s = filter (\<lambda>c. c \<noteq> CHR '' '') s"

text \<open>
  \<open>strings.ToLower\<close> of Go's standard library. It first scans the bytes of \<open>s\<close>:
  \<open>if c >= utf8.RuneSelf { isASCII = false; break }\<close>, where \<open>utf8.RuneSelf\<close> is \<open>0x80\<close>. When
  every byte is below \<open>0x80\<close> it lowers byte by byte,
  \<open>if 'A' <= c && c <= 'Z' { c += 'a' - 'A' }\<close>; otherwise it returns
  \<open>Map(unicode.ToLower, s)\<close>, which decodes the runes of \<open>s\<close> and maps each through the case
  tables of package \<open>unicode\<close>. Those tables are not part of the repository: the function
  \<open>s \<mapsto> Map(unicode.ToLower, s)\<close> is the parameter \<open>unicodeLower\<close> of \<open>ToLower\<close> and of
  everything that calls it, and nothing is assumed of it.
\<close>

definition isASCII :: "string \<Rightarrow> bool" where
  "isASCII s = list_all (\<lambda>c. (of_char c :: nat) < 128) s"

definition lowerChar :: "char \<Rightarrow> char" where
  "lowerChar c =
     (if 65 \<le> (of_char c :: nat) \<and> (of_char c :: nat) \<le> 90
      then char_of ((of_char c :: nat) + 32)
      else c)"

definition ToLower :: "(string \<Rightarrow> string) \<Rightarrow> string \<Rightarrow> string" where
  "ToLower unicodeLower s = (if isASCII s then map lowerChar s else unicodeLower s)"

text \<open>
  Modelled from the spec: \<open>slice.SymmetricDifference\<close> belongs to the Coder module
  (\<open>coderd/util/slice\<close>), which is not under \<open>src/\<close>. Section 4.2 of the specification
  gives its contract for the call \<open>add, remove := SymmetricDifference(a, b)\<close>: \<open>add\<close> holds
  the elements of \<open>b\<close> that are not in \<open>a\<close>, \<open>remove\<close> those of \<open>a\<close> that are not in \<open>b\<close>,
  as set subtraction, duplicates collapsed.
\<close>

definition Difference :: "'a list \<Rightarrow> 'a list \<Rightarrow> 'a list" where
  "Difference a b = remdups (filter (\<lambda>x. x \<notin> set b) a)"

definition SymmetricDifference :: "'a list \<Rightarrow> 'a list \<Rightarrow> 'a list \<times> 'a list" where
  "SymmetricDifference a b = (Difference b a, Difference a b)"

section \<open>The change set (\<open>gcsync/request.go\<close>)\<close>

text \<open>
  \<open>ChangeGroupRequests\<close> is a Go map from group name to \<open>PatchGroupRequest\<close>. It is kept
  as an association list with one pair per key, since the program also takes its length,
  ranges over it and deletes from it: \<open>c[group]\<close> is \<open>map_of c grp\<close>, the assignment
  \<open>c[group] = req\<close> is \<open>AList.update\<close>, \<open>delete(c, group)\<close> is \<open>AList.delete\<close>, and \<open>len(c)\<close>
  is \<open>length c\<close>. Go leaves the order of a \<open>range\<close> over a map open; the model ranges in
  the order of the list.
\<close>

type_synonym ChangeGroupRequests = "(string \<times> PatchGroupRequest) list"

definition emptyRequest :: PatchGroupRequest where
  "emptyRequest = \<lparr>AddUsers = [], RemoveUsers = []\<rparr>"

definition AddUser :: "ChangeGroupRequests \<Rightarrow> string \<Rightarrow> string \<Rightarrow> ChangeGroupRequests" where
  "AddUser c grp user =
     (let c1 = (if map_of c grp = None then AList.update grp emptyRequest c else c);
          req = (case map_of c1 grp of Some r \<Rightarrow> r | None \<Rightarrow> emptyRequest)
      in AList.update grp (req\<lparr>AddUsers := AddUsers req @ [user]\<rparr>) c1)"

definition RemoveUser :: "ChangeGroupRequests \<Rightarrow> string \<Rightarrow> string \<Rightarrow> ChangeGroupRequests" where
  "RemoveUser c grp user =
     (let c1 = (if map_of c grp = None then AList.update grp emptyRequest c else c);
          req = (case map_of c1 grp of Some r \<Rightarrow> r | None \<Rightarrow> emptyRequest)
      in AList.update grp (req\<lparr>RemoveUsers := RemoveUsers req @ [user]\<rparr>) c1)"

section \<open>Expected group names (\<open>ExpectedCoderGroups\<close>)\<close>

text \<open>
  What the program does in a run is recorded as a list of events: every call to one of
  the two remote systems, and every line it logs.
\<close>

datatype event =
    CallOrganizations
  | CallGroups GroupArguments
  | CallUsers
  | CallGoogleGroups string
  | CallCreateGroup uuid CreateGroupRequest
  | CallPatchGroup uuid PatchGroupRequest
  | LogNoGroupName string
  | LogNoChanges nat
  | LogCreateFailed string string
  | LogCreated "Group list"
  | LogChangesMade
  | LogMembershipChanges
  | LogGroupPatched string nat nat "string list" "string list"

text \<open>
  The loop of \<open>ExpectedCoderGroups\<close>: a group without a name is logged and skipped, any
  other name is lower-cased after its spaces are removed. The result is the list
  \<open>expected\<close> and the lines logged on the way.
\<close>

definition normalizedName :: "(string \<Rightarrow> string) \<Rightarrow> string \<Rightarrow> string" where
  "normalizedName unicodeLower name = ToLower unicodeLower (removeSpaces name)"

fun ExpectedCoderGroups_loop ::
  "(string \<Rightarrow> string) \<Rightarrow> admin_Group list \<Rightarrow> string list \<times> event list \<Rightarrow> string list \<times> event list" where
  "ExpectedCoderGroups_loop unicodeLower [] acc = acc"
| "ExpectedCoderGroups_loop unicodeLower (grp # groups) (expected, logs) =
     (if GName grp = ''''
      then ExpectedCoderGroups_loop unicodeLower groups (expected, logs @ [LogNoGroupName (GEmail grp)])
      else ExpectedCoderGroups_loop unicodeLower groups (expected @ [normalizedName unicodeLower (GName grp)], logs))"

definition ExpectedCoderGroups :: "(string \<Rightarrow> string) \<Rightarrow> admin_Group list \<Rightarrow> string list \<times> event list" where
  "ExpectedCoderGroups unicodeLower groups = ExpectedCoderGroups_loop unicodeLower groups ([], [])"

section \<open>The diff of one user\<close>

text \<open>
  Lines 135 to 143 of \<open>SyncGroups\<close> (145 to 152 of \<open>main.go\<close>): the names of the user's
  Coder groups, and the name of the everyone group, which is the group whose ID is the
  organization's ID and \<open>"Everyone"\<close> when no such group is listed.
\<close>

fun scanGroups :: "uuid \<Rightarrow> Group list \<Rightarrow> string list \<times> string \<Rightarrow> string list \<times> string" where
  "scanGroups orgID [] acc = acc"
| "scanGroups orgID (grp # groups) (cGroupNames, everyoneGroup) =
     scanGroups orgID groups
       (cGroupNames @ [Group_Name grp],
        if Group_ID grp = orgID then Group_Name grp else everyoneGroup)"

definition cGroupNamesOf :: "uuid \<Rightarrow> Group list \<Rightarrow> string list" where
  "cGroupNamesOf orgID cGroups = fst (scanGroups orgID cGroups ([], ''Everyone''))"

definition everyoneGroupOf :: "uuid \<Rightarrow> Group list \<Rightarrow> string" where
  "everyoneGroupOf orgID cGroups = snd (scanGroups orgID cGroups ([], ''Everyone''))"

text \<open>
  Lines 145 to 149: the expected names, with the everyone group appended, against the
  current names. The pair is \<open>(add, remove)\<close>.
\<close>

definition expectedOf :: "(string \<Rightarrow> string) \<Rightarrow> uuid \<Rightarrow> Group list \<Rightarrow> admin_Group list \<Rightarrow> string list" where
  "expectedOf unicodeLower orgID cGroups gGroups =
     fst (ExpectedCoderGroups unicodeLower gGroups) @ [everyoneGroupOf orgID cGroups]"

definition userDiff :: "(string \<Rightarrow> string) \<Rightarrow> uuid \<Rightarrow> Group list \<Rightarrow> admin_Group list \<Rightarrow> string list \<times> string list" where
  "userDiff unicodeLower orgID cGroups gGroups =
     SymmetricDifference (cGroupNamesOf orgID cGroups) (expectedOf unicodeLower orgID cGroups gGroups)"

section \<open>The remote systems as the program sees them\<close>

text \<open>
  The Coder client and the Google directory are outside the repository. The program is
  modelled against any pair of them: a state \<open>'w\<close> of the remote systems and the answer
  of each call in that state. A listing reads the state, \<open>CreateGroup\<close> and \<open>PatchGroup\<close>
  may change it. An answer is \<open>Inl err\<close> for a Go error and \<open>Inr v\<close> otherwise.
  \<open>GoogleGroups\<close> stands for the function of that name in package \<open>gcsync\<close>, which
  gathers the pages of the directory's answer into one list or returns the first error.
\<close>

record 'w Adapter =
  Organizations :: "'w \<Rightarrow> string + Organization list"
  Groups :: "GroupArguments \<Rightarrow> 'w \<Rightarrow> string + Group list"
  Users :: "'w \<Rightarrow> string + User list"
  GoogleGroups :: "string \<Rightarrow> 'w \<Rightarrow> string + admin_Group list"
  CreateGroup :: "uuid \<Rightarrow> CreateGroupRequest \<Rightarrow> 'w \<Rightarrow> (string + Group) \<times> 'w"
  PatchGroup :: "uuid \<Rightarrow> PatchGroupRequest \<Rightarrow> 'w \<Rightarrow> (string + Group) \<times> 'w"

text \<open>
  How a run ends: \<open>Done\<close> when the function returns \<open>nil\<close> (or \<open>main\<close> returns),
  \<open>Returned err\<close> when \<open>SyncGroups\<close> returns an error, \<open>Exited msg\<close> when \<open>log.Fatalf\<close>
  ends the process.
\<close>

datatype outcome = Done | Returned string | Exited string

section \<open>The loop over the users\<close>

record loop_state =
  userByID :: "uuid \<rightharpoonup> User"
  coderGroupChanges :: ChangeGroupRequests
  oidcUserCount :: nat

definition initial_state :: loop_state where
  "initial_state = \<lparr>userByID = Map.empty, coderGroupChanges = [], oidcUserCount = 0\<rparr>"

text \<open>The argument of the listing of one user's groups: only \<open>HasMember\<close> is set.\<close>

definition userGroupArguments :: "User \<Rightarrow> GroupArguments" where
  "userGroupArguments user = \<lparr>Organization = [], HasMember = User_Username user\<rparr>"

text \<open>The two inner loops that record the diff of one user in the change set.\<close>

definition recordChanges ::
  "string \<Rightarrow> string list \<Rightarrow> string list \<Rightarrow> ChangeGroupRequests \<Rightarrow> ChangeGroupRequests" where
  "recordChanges user add remove c =
     fold (\<lambda>grp c'. RemoveUser c' grp user) remove (fold (\<lambda>grp c'. AddUser c' grp user) add c)"

text \<open>
  One round of the loop over \<open>coderUsers.Users\<close> (lines 111 to 156 of \<open>SyncGroups\<close>, the
  same text as lines 121 to 165 of \<open>main.go\<close>). The result is the events of the round and
  either the message of \<open>log.Fatalf\<close> or the state after the round.
\<close>

definition syncUser ::
  "(string \<Rightarrow> string) \<Rightarrow> 'w Adapter \<Rightarrow> string \<Rightarrow> uuid \<Rightarrow> 'w \<Rightarrow> User \<Rightarrow> loop_state \<Rightarrow> event list \<times> (string + loop_state)" where
  "syncUser unicodeLower A domain orgID w user st =
     (let st1 = st\<lparr>userByID := (userByID st)(User_ID user \<mapsto> user)\<rparr> in
      if User_LoginType user \<noteq> LoginTypeOIDC then ([], Inr st1)
      else if \<not> HasSuffix (User_Email user) (''@'' @ domain) then ([], Inr st1)
      else
        let st2 = st1\<lparr>oidcUserCount := oidcUserCount st1 + 1\<rparr> in
        (case GoogleGroups A (User_Email user) w of
           Inl err \<Rightarrow>
             ([CallGoogleGroups (User_Email user)],
              Inl (''failed to get Google Groups for '' @ User_Email user @ '': '' @ err))
         | Inr gGroups \<Rightarrow>
             (case Groups A (userGroupArguments user) w of
                Inl err \<Rightarrow>
                  ([CallGoogleGroups (User_Email user), CallGroups (userGroupArguments user)],
                   Inl (''failed to get coder groups for user '' @ User_Email user @ '': '' @ err))
              | Inr cGroups \<Rightarrow>
                  (case userDiff unicodeLower orgID cGroups gGroups of
                     (add, remove) \<Rightarrow>
                       ([CallGoogleGroups (User_Email user), CallGroups (userGroupArguments user)]
                          @ snd (ExpectedCoderGroups unicodeLower gGroups),
                        Inr (st2\<lparr>coderGroupChanges :=
                               recordChanges (User_ID user) add remove (coderGroupChanges st2)\<rparr>))))))"

fun usersLoop ::
  "(string \<Rightarrow> string) \<Rightarrow> 'w Adapter \<Rightarrow> string \<Rightarrow> uuid \<Rightarrow> 'w \<Rightarrow> User list \<Rightarrow> loop_state \<Rightarrow> event list \<times> (string + loop_state)" where
  "usersLoop unicodeLower A domain orgID w [] st = ([], Inr st)"
| "usersLoop unicodeLower A domain orgID w (user # users) st =
     (case syncUser unicodeLower A domain orgID w user st of
        (ev, Inl fatal) \<Rightarrow> (ev, Inl fatal)
      | (ev, Inr st') \<Rightarrow>
          (case usersLoop unicodeLower A domain orgID w users st' of (ev', r) \<Rightarrow> (ev @ ev', r)))"

section \<open>Creating the missing groups\<close>

definition newGroupRequest :: "string \<Rightarrow> CreateGroupRequest" where
  "newGroupRequest grp =
     \<lparr>Name = grp, DisplayName = [], AvatarURL = ''/emojis/1f195.png'', QuotaAllowance = 0\<rparr>"

text \<open>
  The loop \<open>for group, _ := range changes\<close> of \<open>createMissingGroups\<close> (lines 200 to 218;
  lines 169 to 186 of \<open>main.go\<close>), over the keys in the order \<open>ks\<close>. The state is
  \<open>coderGroups\<close>, \<open>changes\<close>, \<open>createdGroups\<close> and the remote state.
\<close>

fun createLoop ::
  "'w Adapter \<Rightarrow> uuid \<Rightarrow> string list \<Rightarrow>
   (string \<rightharpoonup> Group) \<times> ChangeGroupRequests \<times> Group list \<times> 'w \<Rightarrow>
   event list \<times> (string \<rightharpoonup> Group) \<times> ChangeGroupRequests \<times> Group list \<times> 'w" where
  "createLoop A org [] s = ([], s)"
| "createLoop A org (grp # ks) (cgs, changes, createdGroups, w) =
     (if cgs grp = None then
        (case CreateGroup A org (newGroupRequest grp) w of
           (Inl err, w') \<Rightarrow>
             (case createLoop A org ks (cgs, AList.delete grp changes, createdGroups, w') of
                (ev, s) \<Rightarrow>
                  (CallCreateGroup org (newGroupRequest grp) # LogCreateFailed grp err # ev, s))
         | (Inr newGroup, w') \<Rightarrow>
             (case createLoop A org ks
                     (cgs(grp \<mapsto> newGroup), changes, createdGroups @ [newGroup], w') of
                (ev, s) \<Rightarrow> (CallCreateGroup org (newGroupRequest grp) # ev, s)))
      else createLoop A org ks (cgs, changes, createdGroups, w))"

text \<open>
  \<open>createMissingGroups\<close>: the loop, then the report of the groups created. Its third
  result is the Go error, which is \<open>nil\<close> on every path.
\<close>

definition createMissingGroups ::
  "'w Adapter \<Rightarrow> uuid \<Rightarrow> (string \<rightharpoonup> Group) \<Rightarrow> ChangeGroupRequests \<Rightarrow> 'w \<Rightarrow>
   event list \<times> ((string \<rightharpoonup> Group) \<times> ChangeGroupRequests \<times> string option) \<times> 'w" where
  "createMissingGroups A org cgs changes w =
     (case createLoop A org (map fst changes) (cgs, changes, [], w) of
        (ev, cgs', changes', createdGroups, w') \<Rightarrow>
          (ev @ (if length createdGroups > 0 then [LogCreated createdGroups] else []),
           (cgs', changes', None), w'))"

section \<open>Applying the changes\<close>

text \<open>
  \<open>UserIDsToNames\<close>: the email of a known user, the ID itself otherwise. (An ID in the
  change set is the text of a UUID, so \<open>uuid.Parse\<close> succeeds.)
\<close>

definition UserIDsToNames :: "(uuid \<rightharpoonup> User) \<Rightarrow> string list \<Rightarrow> string list" where
  "UserIDsToNames lookup ids =
     map (\<lambda>idStr. case lookup idStr of Some user \<Rightarrow> User_Email user | None \<Rightarrow> idStr) ids"

datatype apply_error = GroupNotFound string | PatchFailed string string

text \<open>
  The loop \<open>for group, req := range changes\<close> of \<open>applyGroupChanges\<close> (lines 180 to 194;
  lines 206 to 220 of \<open>main.go\<close>): it stops at the first group that cannot be resolved
  and at the first patch that fails.
\<close>

fun applyLoop ::
  "'w Adapter \<Rightarrow> (uuid \<rightharpoonup> User) \<Rightarrow> (string \<rightharpoonup> Group) \<Rightarrow> ChangeGroupRequests \<Rightarrow> 'w \<Rightarrow>
   event list \<times> apply_error option \<times> 'w" where
  "applyLoop A lookupUser cgs [] w = ([], None, w)"
| "applyLoop A lookupUser cgs ((grp, req) # changes) w =
     (case cgs grp of
        None \<Rightarrow> ([], Some (GroupNotFound grp), w)
      | Some coderGroup \<Rightarrow>
          (case PatchGroup A (Group_ID coderGroup) req w of
             (Inl err, w') \<Rightarrow>
               ([CallPatchGroup (Group_ID coderGroup) req], Some (PatchFailed grp err), w')
           | (Inr patched, w') \<Rightarrow>
               (case applyLoop A lookupUser cgs changes w' of
                  (ev, r) \<Rightarrow>
                    (CallPatchGroup (Group_ID coderGroup) req
                       # LogGroupPatched grp (length (AddUsers req)) (length (RemoveUsers req))
                           (UserIDsToNames lookupUser (AddUsers req))
                           (UserIDsToNames lookupUser (RemoveUsers req))
                       # ev, r))))"

definition applyGroupChanges ::
  "'w Adapter \<Rightarrow> uuid \<Rightarrow> (uuid \<rightharpoonup> User) \<Rightarrow> (string \<rightharpoonup> Group) \<Rightarrow> ChangeGroupRequests \<Rightarrow> 'w \<Rightarrow>
   event list \<times> string option \<times> 'w" where
  "applyGroupChanges A org lookupUser cgs changes w =
     (case applyLoop A lookupUser cgs changes w of
        (ev, None, w') \<Rightarrow> (ev, None, w')
      | (ev, Some (GroupNotFound grp), w') \<Rightarrow>
          (ev, Some (''group '' @ grp @ '' not found, unable to apply group sync''), w')
      | (ev, Some (PatchFailed grp err), w') \<Rightarrow>
          (ev, Some (''failed to patch group '' @ grp @ '': '' @ err), w'))"

section \<open>\<open>SyncGroups\<close> (package \<open>gcsync\<close>)\<close>

definition defaultOrganization :: "'w Adapter \<Rightarrow> 'w \<Rightarrow> string + Organization" where
  "defaultOrganization A w =
     (case Organizations A w of
        Inl err \<Rightarrow> Inl (''failed to get coder organizations: '' @ err)
      | Inr coderOrganizations \<Rightarrow>
          (case find Org_IsDefault coderOrganizations of
             Some org \<Rightarrow> Inr org
           | None \<Rightarrow> Inl ''default organization not found''))"

definition groupMap :: "Group list \<Rightarrow> (string \<rightharpoonup> Group)" where
  "groupMap resp = fold (\<lambda>grp m. m(Group_Name grp \<mapsto> grp)) resp Map.empty"

definition orgGroupArguments :: "uuid \<Rightarrow> GroupArguments" where
  "orgGroupArguments orgID = \<lparr>Organization = orgID, HasMember = []\<rparr>"

definition coderGroups :: "'w Adapter \<Rightarrow> uuid \<Rightarrow> 'w \<Rightarrow> string + (string \<rightharpoonup> Group)" where
  "coderGroups A orgID w =
     (case Groups A (orgGroupArguments orgID) w of
        Inl err \<Rightarrow> Inl (''failed to get coder groups: '' @ err)
      | Inr coderGroupsResp \<Rightarrow> Inr (groupMap coderGroupsResp))"

text \<open>
  The part of \<open>SyncGroups\<close> after the loop over the users (lines 158 to 175).
\<close>

definition finishSync ::
  "'w Adapter \<Rightarrow> uuid \<Rightarrow> (string \<rightharpoonup> Group) \<Rightarrow> loop_state \<Rightarrow> 'w \<Rightarrow> event list \<times> outcome \<times> 'w" where
  "finishSync A orgID cgs st w =
     (if length (coderGroupChanges st) = 0 then ([LogNoChanges (oidcUserCount st)], Done, w)
      else
        (case createMissingGroups A orgID cgs (coderGroupChanges st) w of
           (ev1, (cgs', changes', Some err), w') \<Rightarrow>
             (ev1, Returned (''failed to create missing groups: '' @ err), w')
         | (ev1, (cgs', changes', None), w') \<Rightarrow>
             (case applyGroupChanges A orgID (userByID st) cgs' changes' w' of
                (ev2, Some err, w'') \<Rightarrow>
                  (ev1 @ ev2, Returned (''failed to apply group changes: '' @ err), w'')
              | (ev2, None, w'') \<Rightarrow> (ev1 @ ev2, Done, w''))))"

definition setupEvents :: "uuid \<Rightarrow> event list" where
  "setupEvents orgID = [CallOrganizations, CallGroups (orgGroupArguments orgID), CallUsers]"

definition SyncGroups :: "(string \<Rightarrow> string) \<Rightarrow> 'w Adapter \<Rightarrow> string \<Rightarrow> 'w \<Rightarrow> event list \<times> outcome \<times> 'w" where
  "SyncGroups unicodeLower A domain w =
     (case defaultOrganization A w of
        Inl err \<Rightarrow> ([CallOrganizations], Returned err, w)
      | Inr defaultOrg \<Rightarrow>
          (case coderGroups A (Org_ID defaultOrg) w of
             Inl err \<Rightarrow>
               ([CallOrganizations, CallGroups (orgGroupArguments (Org_ID defaultOrg))],
                Returned err, w)
           | Inr cgs \<Rightarrow>
               (case Users A w of
                  Inl err \<Rightarrow>
                    (setupEvents (Org_ID defaultOrg),
                     Returned (''failed to get coder users: '' @ err), w)
                | Inr coderUsers \<Rightarrow>
                    (case usersLoop unicodeLower A domain (Org_ID defaultOrg) w coderUsers initial_state of
                       (ev, Inl fatal) \<Rightarrow> (setupEvents (Org_ID defaultOrg) @ ev, Exited fatal, w)
                     | (ev, Inr st) \<Rightarrow>
                         (case finishSync A (Org_ID defaultOrg) cgs st w of
                            (ev', r, w') \<Rightarrow>
                              (setupEvents (Org_ID defaultOrg) @ ev @ ev', r, w'))))))"

section \<open>The stand-alone program (\<open>main.go\<close>)\<close>

text \<open>
  Lines 92 to 98 of \<open>main.go\<close>: \<open>defaultOrg\<close> is the first organization marked default, and
  stays the zero \<open>codersdk.Organization\<close> when none is.
\<close>

definition zeroOrganization :: Organization where
  "zeroOrganization = \<lparr>Org_ID = uuid_Nil, Org_IsDefault = False\<rparr>"

definition main_defaultOrg :: "Organization list \<Rightarrow> Organization" where
  "main_defaultOrg coderOrganizations =
     (case find Org_IsDefault coderOrganizations of Some org \<Rightarrow> org | None \<Rightarrow> zeroOrganization)"

definition main_applyMessage :: "apply_error \<Rightarrow> string" where
  "main_applyMessage e =
     (case e of
        GroupNotFound grp \<Rightarrow> ''group '' @ grp @ '' not found, does it exist in Coder?''
      | PatchFailed grp err \<Rightarrow> ''failed to patch group '' @ grp @ '': '' @ err)"

text \<open>Lines 167 to 220 of \<open>main.go\<close>: what follows the loop over the users.\<close>

definition main_finish ::
  "'w Adapter \<Rightarrow> uuid \<Rightarrow> (string \<rightharpoonup> Group) \<Rightarrow> loop_state \<Rightarrow> 'w \<Rightarrow> event list \<times> outcome \<times> 'w" where
  "main_finish A orgID cgs st w =
     (case createLoop A orgID (map fst (coderGroupChanges st)) (cgs, coderGroupChanges st, [], w) of
        (ev1, cgs', changes', createdGroups, w') \<Rightarrow>
          if length changes' = 0 then (ev1 @ [LogNoChanges (oidcUserCount st)], Done, w')
          else
            (case applyLoop A (userByID st) cgs' changes' w' of
               (ev2, r, w'') \<Rightarrow>
                 (ev1 @ [LogChangesMade]
                    @ (if length createdGroups > 0 then [LogCreated createdGroups] else [])
                    @ (if length changes' > 0 then [LogMembershipChanges] else [])
                    @ ev2,
                  (case r of None \<Rightarrow> Done | Some e \<Rightarrow> Exited (main_applyMessage e)), w'')))"

definition main_go :: "(string \<Rightarrow> string) \<Rightarrow> 'w Adapter \<Rightarrow> string \<Rightarrow> 'w \<Rightarrow> event list \<times> outcome \<times> 'w" where
  "main_go unicodeLower A domain w =
     (case Organizations A w of
        Inl err \<Rightarrow> ([CallOrganizations], Exited (''failed to get coder organizations: '' @ err), w)
      | Inr coderOrganizations \<Rightarrow>
          (let orgID = Org_ID (main_defaultOrg coderOrganizations) in
           case Groups A (orgGroupArguments orgID) w of
             Inl err \<Rightarrow>
               ([CallOrganizations, CallGroups (orgGroupArguments orgID)],
                Exited (''failed to get coder groups: '' @ err), w)
           | Inr coderGroupsResp \<Rightarrow>
               (case Users A w of
                  Inl err \<Rightarrow>
                    (setupEvents orgID, Exited (''failed to get coder users: '' @ err), w)
                | Inr coderUsers \<Rightarrow>
                    (case usersLoop unicodeLower A domain orgID w coderUsers initial_state of
                       (ev, Inl fatal) \<Rightarrow> (setupEvents orgID @ ev, Exited fatal, w)
                     | (ev, Inr st) \<Rightarrow>
                         (case main_finish A orgID (groupMap coderGroupsResp) st w of
                            (ev', r, w') \<Rightarrow> (setupEvents orgID @ ev @ ev', r, w'))))))"

section \<open>A model of the two remote systems\<close>

text \<open>
  Modelled from the spec: the Coder deployment and the Google directory are external
  collaborators (sections 2 and 6 of the specification); only their clients are called
  from \<open>src/\<close>. The state holds the organizations, the groups with their members, the
  users, the directory (the Google groups of each email), the group names whose creation
  the target refuses, and the IDs that the target gives to the groups created next.
\<close>

record World =
  w_orgs :: "Organization list"
  w_groups :: "Group list"
  w_users :: "User list"
  w_directory :: "(string \<times> admin_Group list) list"
  w_refused :: "string list"
  w_fresh :: "uuid list"

text \<open>
  Modelled from the spec: \<open>listGroups\<close> and \<open>listGroupsForUser\<close> of the target, both
  served by the client's \<open>Groups\<close>. The answer holds the groups of the organization asked
  for (of every organization when that argument is empty) that have the user with the
  handle asked for as a member (every group when that argument is empty).
\<close>

definition isMember :: "World \<Rightarrow> string \<Rightarrow> Group \<Rightarrow> bool" where
  "isMember w handle g \<longleftrightarrow>
     list_ex (\<lambda>u. User_Username u = handle \<and> User_ID u \<in> set (Group_Members g)) (w_users w)"

definition world_Groups :: "GroupArguments \<Rightarrow> World \<Rightarrow> string + Group list" where
  "world_Groups args w =
     Inr (filter (\<lambda>g. (if Organization args = [] then True
                        else Group_OrganizationID g = Organization args)
                     \<and> (if HasMember args = [] then True else isMember w (HasMember args) g))
            (w_groups w))"

text \<open>
  Modelled from the spec: \<open>createGroup\<close> of the target. It fails when the name is
  refused, the organization is unknown, the name is taken in the organization, or no ID
  is left; otherwise the new group, without members, joins the groups.
\<close>

definition world_CreateGroup ::
  "uuid \<Rightarrow> CreateGroupRequest \<Rightarrow> World \<Rightarrow> (string + Group) \<times> World" where
  "world_CreateGroup org req w =
     (if Name req \<in> set (w_refused w) then (Inl ''name refused'', w)
      else if \<not> list_ex (\<lambda>organization. Org_ID organization = org) (w_orgs w)
        then (Inl ''organization not found'', w)
      else if list_ex (\<lambda>g. Group_OrganizationID g = org \<and> Group_Name g = Name req) (w_groups w)
        then (Inl ''name taken'', w)
      else
        (case w_fresh w of
           [] \<Rightarrow> (Inl ''no identifier left'', w)
         | newID # ids \<Rightarrow>
             (Inr \<lparr>Group_ID = newID, Group_Name = Name req, Group_OrganizationID = org,
                    Group_Members = []\<rparr>,
              w\<lparr>w_groups :=
                  w_groups w @ [\<lparr>Group_ID = newID, Group_Name = Name req,
                                  Group_OrganizationID = org, Group_Members = []\<rparr>],
                w_fresh := ids\<rparr>)))"

text \<open>
  Modelled from the spec: \<open>patchGroupMembership\<close> of the target. The users to add join
  the members, the users to remove leave them (a user who is not a member is left out
  without error); it fails when no group has the ID.
\<close>

definition patchMembers :: "PatchGroupRequest \<Rightarrow> Group \<Rightarrow> Group" where
  "patchMembers req g =
     g\<lparr>Group_Members :=
          filter (\<lambda>u. u \<notin> set (RemoveUsers req))
            (Group_Members g @ filter (\<lambda>u. u \<notin> set (Group_Members g)) (remdups (AddUsers req)))\<rparr>"

definition world_PatchGroup ::
  "uuid \<Rightarrow> PatchGroupRequest \<Rightarrow> World \<Rightarrow> (string + Group) \<times> World" where
  "world_PatchGroup gid req w =
     (case find (\<lambda>g. Group_ID g = gid) (w_groups w) of
        None \<Rightarrow> (Inl ''group not found'', w)
      | Some g \<Rightarrow>
          (Inr (patchMembers req g),
           w\<lparr>w_groups := map (\<lambda>x. if Group_ID x = gid then patchMembers req x else x) (w_groups w)\<rparr>))"

text \<open>
  Modelled from the spec: \<open>listGroupsForUser(email)\<close> of the directory, and the two
  remote systems together as the program sees them. The listings never fail.
\<close>

definition world_GoogleGroups :: "string \<Rightarrow> World \<Rightarrow> string + admin_Group list" where
  "world_GoogleGroups email w =
     Inr (case map_of (w_directory w) email of Some gs \<Rightarrow> gs | None \<Rightarrow> [])"

definition worldAdapter :: "World Adapter" where
  "worldAdapter =
     \<lparr>Organizations = (\<lambda>w. Inr (w_orgs w)),
      Groups = world_Groups,
      Users = (\<lambda>w. Inr (w_users w)),
      GoogleGroups = world_GoogleGroups,
      CreateGroup = world_CreateGroup,
      PatchGroup = world_PatchGroup\<rparr>"

text \<open>The events of a run that change the target: a creation or a patch.\<close>

fun isMutation :: "event \<Rightarrow> bool" where
  "isMutation (CallCreateGroup org req) = True"
| "isMutation (CallPatchGroup gid req) = True"
| "isMutation e = False"

section \<open>Reading the change set and the events\<close>

text \<open>
  The request that \<open>AddUser\<close> and \<open>RemoveUser\<close> extend: the entry of the group, or the
  zero request that they store first when the group has no entry.
\<close>

definition requestOf :: "ChangeGroupRequests \<Rightarrow> string \<Rightarrow> PatchGroupRequest" where
  "requestOf c grp = (case map_of c grp of Some r \<Rightarrow> r | None \<Rightarrow> emptyRequest)"

text \<open>The events of the round of one user: the two listings and the lines on nameless groups.\<close>

fun isFetch :: "event \<Rightarrow> bool" where
  "isFetch (CallGoogleGroups email) = True"
| "isFetch (CallGroups args) = True"
| "isFetch (LogNoGroupName email) = True"
| "isFetch e = False"

text \<open>The line that reports that there is nothing to change.\<close>

fun isNoChanges :: "event \<Rightarrow> bool" where
  "isNoChanges (LogNoChanges n) = True"
| "isNoChanges e = False"

text \<open>The groups whose creation is logged as failed.\<close>

definition failedGroups :: "event list \<Rightarrow> string set" where
  "failedGroups ev = {g. \<exists>err. LogCreateFailed g err \<in> set ev}"

text \<open>The patches sent, and the groups logged as patched, in order.\<close>

fun patchCalls :: "event list \<Rightarrow> (uuid \<times> PatchGroupRequest) list" where
  "patchCalls [] = []"
| "patchCalls (CallPatchGroup gid req # ev) = (gid, req) # patchCalls ev"
| "patchCalls (e # ev) = patchCalls ev"

fun patchedGroups :: "event list \<Rightarrow> string list" where
  "patchedGroups [] = []"
| "patchedGroups (LogGroupPatched g n m as rs # ev) = g # patchedGroups ev"
| "patchedGroups (e # ev) = patchedGroups ev"

text \<open>The change set that the loop over the users leaves, empty when the loop is fatal.\<close>

definition changesAfterLoop :: "event list \<times> (string + loop_state) \<Rightarrow> ChangeGroupRequests" where
  "changesAfterLoop res = (case snd res of Inl fatal \<Rightarrow> [] | Inr st \<Rightarrow> coderGroupChanges st)"

text \<open>The test of lines 113 to 120: the users for whom a diff is computed.\<close>

definition eligible :: "string \<Rightarrow> User \<Rightarrow> bool" where
  "eligible domain user \<longleftrightarrow>
     User_LoginType user = LoginTypeOIDC \<and> HasSuffix (User_Email user) (''@'' @ domain)"

section \<open>The target model seen by one user\<close>

text \<open>
  What the two listings of the round of one user return in the model of the remote
  systems, and the diff computed from them.
\<close>

definition userGroupsIn :: "World \<Rightarrow> User \<Rightarrow> Group list" where
  "userGroupsIn w user =
     filter (\<lambda>g. if User_Username user = [] then True else isMember w (User_Username user) g)
       (w_groups w)"

definition directoryOf :: "World \<Rightarrow> User \<Rightarrow> admin_Group list" where
  "directoryOf w user = (case map_of (w_directory w) (User_Email user) of Some gs \<Rightarrow> gs | None \<Rightarrow> [])"

definition diffIn :: "(string \<Rightarrow> string) \<Rightarrow> uuid \<Rightarrow> World \<Rightarrow> User \<Rightarrow> string list \<times> string list" where
  "diffIn unicodeLower orgID w user = userDiff unicodeLower orgID (userGroupsIn w user) (directoryOf w user)"

text \<open>The change set that the loop over the users builds from these diffs.\<close>

definition changesOf ::
  "(string \<Rightarrow> string) \<Rightarrow> string \<Rightarrow> uuid \<Rightarrow> World \<Rightarrow> User list \<Rightarrow> ChangeGroupRequests \<Rightarrow> ChangeGroupRequests" where
  "changesOf unicodeLower domain orgID w users c =
     fold (\<lambda>u c'. if eligible domain u
                   then recordChanges (User_ID u) (fst (diffIn unicodeLower orgID w u)) (snd (diffIn unicodeLower orgID w u)) c'
                   else c') users c"

text \<open>
  A state of the target with one organization only: every group belongs to it, no two
  groups share a name, and the IDs of the groups and those kept for new groups are all
  different and differ from the organization's ID.
\<close>

definition oneScope :: "uuid \<Rightarrow> World \<Rightarrow> bool" where
  "oneScope orgID w \<longleftrightarrow>
     (\<forall>g \<in> set (w_groups w). Group_OrganizationID g = orgID)
     \<and> distinct (map Group_Name (w_groups w))
     \<and> distinct (map Group_ID (w_groups w) @ w_fresh w)
     \<and> orgID \<notin> set (w_fresh w)"

text \<open>Every entry of \<open>coderGroups\<close> stands for a group of the target with that name.\<close>

definition resolves :: "(string \<rightharpoonup> Group) \<Rightarrow> World \<Rightarrow> bool" where
  "resolves cgs w \<longleftrightarrow>
     (\<forall>name g. cgs name = Some g \<longrightarrow>
        (\<exists>x \<in> set (w_groups w). Group_ID x = Group_ID g \<and> Group_Name x = name))"

text \<open>The state of the target after every entry of the change set is applied to its group.\<close>

definition patchedWorld :: "ChangeGroupRequests \<Rightarrow> World \<Rightarrow> World" where
  "patchedWorld changes w =
     w\<lparr>w_groups := map (\<lambda>x. patchMembers (requestOf changes (Group_Name x)) x) (w_groups w)\<rparr>"

section \<open>Concrete inputs\<close>

text \<open>
  Groups, users and states of the remote systems on which the results are evaluated.
  Every name in them is ASCII, so the runs on them are the same for every \<open>unicodeLower\<close>;
  where an instance needs a value for it, the identity is taken.
\<close>

definition grpA :: Group where
  "grpA = \<lparr>Group_ID = ''g-a'', Group_Name = ''A'', Group_OrganizationID = ''org'',
           Group_Members = []\<rparr>"

definition grpB :: Group where
  "grpB = \<lparr>Group_ID = ''g-b'', Group_Name = ''b'', Group_OrganizationID = ''org'',
           Group_Members = []\<rparr>"

definition grpAll :: Group where
  "grpAll = \<lparr>Group_ID = ''org-a'', Group_Name = ''all-staff'', Group_OrganizationID = ''org-a'',
             Group_Members = [''u-bob'']\<rparr>"

definition grpCats :: Group where
  "grpCats = \<lparr>Group_ID = ''g-cat'', Group_Name = ''catlovers'', Group_OrganizationID = ''org-a'',
              Group_Members = [''u-bob'']\<rparr>"

definition everyoneA :: Group where
  "everyoneA = \<lparr>Group_ID = ''org-a'', Group_Name = ''Everyone'', Group_OrganizationID = ''org-a'',
                Group_Members = [''u-bob'']\<rparr>"

definition everyoneB :: Group where
  "everyoneB = \<lparr>Group_ID = ''org-b'', Group_Name = ''Everyone'', Group_OrganizationID = ''org-b'',
                Group_Members = [''u-bob'']\<rparr>"

definition opsB :: Group where
  "opsB = \<lparr>Group_ID = ''g-ops'', Group_Name = ''ops'', Group_OrganizationID = ''org-b'',
           Group_Members = [''u-bob'']\<rparr>"

definition newOps :: Group where
  "newOps = \<lparr>Group_ID = ''g-1'', Group_Name = ''ops'', Group_OrganizationID = ''org-a'',
             Group_Members = []\<rparr>"

definition newCats :: Group where
  "newCats = \<lparr>Group_ID = ''g-1'', Group_Name = ''catlovers'', Group_OrganizationID = ''org-a'',
              Group_Members = []\<rparr>"

definition addBob :: PatchGroupRequest where
  "addBob = \<lparr>AddUsers = [''u-bob''], RemoveUsers = []\<rparr>"

definition removeBob :: PatchGroupRequest where
  "removeBob = \<lparr>AddUsers = [], RemoveUsers = [''u-bob'']\<rparr>"

definition bob :: User where
  "bob = \<lparr>User_ID = ''u-bob'', User_Username = ''bob'', User_Email = ''bob@example.com'',
          User_LoginType = ''oidc''\<rparr>"

definition carol :: User where
  "carol = \<lparr>User_ID = ''u-carol'', User_Username = ''carol'', User_Email = ''carol@example.com'',
            User_LoginType = ''password''\<rparr>"

definition dave :: User where
  "dave = \<lparr>User_ID = ''u-dave'', User_Username = ''dave'', User_Email = ''dave@other.org'',
           User_LoginType = ''oidc''\<rparr>"

text \<open>One organization; the directory knows "Cat Lovers" and a group without a name.\<close>

definition world_names :: World where
  "world_names =
     \<lparr>w_orgs = [\<lparr>Org_ID = ''org-a'', Org_IsDefault = True\<rparr>],
      w_groups = [everyoneA],
      w_users = [bob],
      w_directory = [(''bob@example.com'',
                      [\<lparr>GName = ''Cat Lovers'', GEmail = ''cats@example.com''\<rparr>,
                       \<lparr>GName = [], GEmail = ''anon@example.com''\<rparr>])],
      w_refused = [],
      w_fresh = [''g-1'']\<rparr>"

text \<open>Two missing groups, one of which the target refuses to create.\<close>

definition world_mixed :: World where
  "world_mixed =
     \<lparr>w_orgs = [\<lparr>Org_ID = ''org-a'', Org_IsDefault = True\<rparr>],
      w_groups = [everyoneA],
      w_users = [bob],
      w_directory = [(''bob@example.com'',
                      [\<lparr>GName = ''Dog_Lovers'', GEmail = ''dogs@example.com''\<rparr>,
                       \<lparr>GName = ''Cat Lovers'', GEmail = ''cats@example.com''\<rparr>])],
      w_refused = [''dog_lovers''],
      w_fresh = [''g-1'']\<rparr>"


text \<open>No organization is marked default.\<close>

definition world_no_default :: World where
  "world_no_default =
     \<lparr>w_orgs = [\<lparr>Org_ID = ''org-a'', Org_IsDefault = False\<rparr>],
      w_groups = [everyoneA, grpCats],
      w_users = [bob],
      w_directory = [],
      w_refused = [],
      w_fresh = [''g-1'']\<rparr>"

text \<open>The only missing group is one that the target refuses to create.\<close>

definition world_refused :: World where
  "world_refused =
     \<lparr>w_orgs = [\<lparr>Org_ID = ''org-a'', Org_IsDefault = True\<rparr>],
      w_groups = [everyoneA],
      w_users = [bob],
      w_directory = [(''bob@example.com'',
                      [\<lparr>GName = ''Dog_Lovers'', GEmail = ''dogs@example.com''\<rparr>])],
      w_refused = [''dog_lovers''],
      w_fresh = [''g-1'']\<rparr>"

text \<open>
  Two organizations: the user is also a member of the second one and of its group
  \<open>ops\<close>; the directory lists no group for the user.
\<close>

definition world_two_orgs :: World where
  "world_two_orgs =
     \<lparr>w_orgs = [\<lparr>Org_ID = ''org-a'', Org_IsDefault = True\<rparr>,
                 \<lparr>Org_ID = ''org-b'', Org_IsDefault = False\<rparr>],
      w_groups = [everyoneA, everyoneB, opsB],
      w_users = [bob],
      w_directory = [],
      w_refused = [],
      w_fresh = [''g-1'', ''g-2'']\<rparr>"

text \<open>The same state after the first run: the default organization has its own \<open>ops\<close>.\<close>

definition world_two_orgs_synced :: World where
  "world_two_orgs_synced =
     \<lparr>w_orgs = [\<lparr>Org_ID = ''org-a'', Org_IsDefault = True\<rparr>,
                 \<lparr>Org_ID = ''org-b'', Org_IsDefault = False\<rparr>],
      w_groups = [everyoneA, everyoneB, opsB, newOps],
      w_users = [bob],
      w_directory = [],
      w_refused = [],
      w_fresh = [''g-2'']\<rparr>"

text \<open>
  The example of the README: the user moves from \<open>catlovers\<close> to \<open>doglovers\<close>, which does
  not exist yet. Two more users are not eligible.
\<close>

definition world_readme :: World where
  "world_readme =
     \<lparr>w_orgs = [\<lparr>Org_ID = ''org-a'', Org_IsDefault = True\<rparr>],
      w_groups = [everyoneA, grpCats],
      w_users = [bob, carol, dave],
      w_directory = [(''bob@example.com'',
                      [\<lparr>GName = ''Dog Lovers'', GEmail = ''dogs@example.com''\<rparr>])],
      w_refused = [],
      w_fresh = [''g-1'']\<rparr>"

definition world_readme_synced :: World where
  "world_readme_synced =
     \<lparr>w_orgs = [\<lparr>Org_ID = ''org-a'', Org_IsDefault = True\<rparr>],
      w_groups = [everyoneA,
                  \<lparr>Group_ID = ''g-cat'', Group_Name = ''catlovers'', Group_OrganizationID = ''org-a'',
                    Group_Members = []\<rparr>,
                  \<lparr>Group_ID = ''g-1'', Group_Name = ''doglovers'', Group_OrganizationID = ''org-a'',
                    Group_Members = [''u-bob'']\<rparr>],
      w_users = [bob, carol, dave],
      w_directory = [(''bob@example.com'',
                      [\<lparr>GName = ''Dog Lovers'', GEmail = ''dogs@example.com''\<rparr>])],
      w_refused = [],
      w_fresh = []\<rparr>"


section \<open>Properties\<close>

subsection \<open>The loops over a user's groups\<close>

lemma lowerChar_table:
  "lowerChar c =
     (case map_of (zip ''ABCDEFGHIJKLMNOPQRSTUVWXYZ'' ''abcdefghijklmnopqrstuvwxyz'') c of
        Some l \<Rightarrow> l
      | None \<Rightarrow> c)"
  by (cases c) (simp add: lowerChar_def char_of_def bit_Suc_0_iff)

lemma lowerChar_byte:
  "(of_char (lowerChar c) :: nat) =
     (if 65 \<le> (of_char c :: nat) \<and> (of_char c :: nat) \<le> 90 then of_char c + 32 else of_char c)"
  by (simp add: lowerChar_def)

lemma ExpectedCoderGroups_loop_fst:
  "fst (ExpectedCoderGroups_loop unicodeLower gs (ex, lg)) =
     ex @ map (\<lambda>g. normalizedName unicodeLower (GName g)) (filter (\<lambda>g. GName g \<noteq> []) gs)"
  by (induction gs arbitrary: ex lg) auto

lemma ExpectedCoderGroups_loop_snd:
  "snd (ExpectedCoderGroups_loop unicodeLower gs (ex, lg)) =
     lg @ map (\<lambda>g. LogNoGroupName (GEmail g)) (filter (\<lambda>g. GName g = []) gs)"
  by (induction gs arbitrary: ex lg) auto

lemma normalizedName_Cat_Lovers: "normalizedName unicodeLower ''Cat Lovers'' = ''catlovers''"
  by (simp add: normalizedName_def ToLower_def isASCII_def removeSpaces_def lowerChar_table)

lemma scanGroups_fst:
  "fst (scanGroups orgID gs (ns, ev)) = ns @ map Group_Name gs"
  by (induction gs arbitrary: ns ev) auto

lemma scanGroups_snd:
  "snd (scanGroups orgID gs (ns, ev)) =
     (case filter (\<lambda>g. Group_ID g = orgID) gs of [] \<Rightarrow> ev | f # fs \<Rightarrow> Group_Name (last (f # fs)))"
  by (induction gs arbitrary: ns ev) (auto split: list.splits)


subsection \<open>The change set\<close>

lemma map_of_AddUser:
  "map_of (AddUser c g u) = (map_of c)(g \<mapsto> (requestOf c g)\<lparr>AddUsers := AddUsers (requestOf c g) @ [u]\<rparr>)"
  by (auto simp: AddUser_def requestOf_def Let_def update_conv' split: option.splits)

lemma map_of_RemoveUser:
  "map_of (RemoveUser c g u) = (map_of c)(g \<mapsto> (requestOf c g)\<lparr>RemoveUsers := RemoveUsers (requestOf c g) @ [u]\<rparr>)"
  by (auto simp: RemoveUser_def requestOf_def Let_def update_conv' split: option.splits)

text \<open>
  Claim C10. \<open>AddUser c g u\<close> appends \<open>u\<close> to the \<open>AddUsers\<close> list of the entry of \<open>g\<close>, an
  empty entry being stored first when \<open>g\<close> has none; the \<open>RemoveUsers\<close> list of that entry
  and the entry of every other group stay as they are. \<open>RemoveUser c g u\<close> does the same
  with the two lists exchanged.
\<close>

theorem AddUser_RemoveUser_frame:
  "map_of (AddUser c g u) g =
     Some \<lparr>AddUsers = AddUsers (requestOf c g) @ [u], RemoveUsers = RemoveUsers (requestOf c g)\<rparr>
   \<and> (\<forall>g'. g' \<noteq> g \<longrightarrow> map_of (AddUser c g u) g' = map_of c g')
   \<and> map_of (RemoveUser c g u) g =
     Some \<lparr>AddUsers = AddUsers (requestOf c g), RemoveUsers = RemoveUsers (requestOf c g) @ [u]\<rparr>
   \<and> (\<forall>g'. g' \<noteq> g \<longrightarrow> map_of (RemoveUser c g u) g' = map_of c g')
   \<and> (map_of c g = None \<longrightarrow> requestOf c g = \<lparr>AddUsers = [], RemoveUsers = []\<rparr>)
   \<and> (\<forall>r. map_of c g = Some r \<longrightarrow> requestOf c g = r)"
  by (simp add: map_of_AddUser map_of_RemoveUser requestOf_def emptyRequest_def)

theorem AddUser_RemoveUser_frame_witness:
  "map_of (AddUser [(''a'', \<lparr>AddUsers = [''u1''], RemoveUsers = [''u2'']\<rparr>)] ''b'' ''u3'') ''b''
     = Some \<lparr>AddUsers = [''u3''], RemoveUsers = []\<rparr>
   \<and> map_of (AddUser [(''a'', \<lparr>AddUsers = [''u1''], RemoveUsers = [''u2'']\<rparr>)] ''b'' ''u3'') ''a''
     = Some \<lparr>AddUsers = [''u1''], RemoveUsers = [''u2'']\<rparr>
   \<and> map_of (RemoveUser [(''a'', \<lparr>AddUsers = [''u1''], RemoveUsers = [''u2'']\<rparr>)] ''a'' ''u3'') ''a''
     = Some \<lparr>AddUsers = [''u1''], RemoveUsers = [''u2'', ''u3'']\<rparr>"
  using AddUser_RemoveUser_frame [of "[(''a'', \<lparr>AddUsers = [''u1''], RemoveUsers = [''u2'']\<rparr>)]" "''b''" "''u3''"]
        AddUser_RemoveUser_frame [of "[(''a'', \<lparr>AddUsers = [''u1''], RemoveUsers = [''u2'']\<rparr>)]" "''a''" "''u3''"]
  by (simp add: requestOf_def emptyRequest_def)

subsection \<open>Expected names and the diff\<close>

lemma ExpectedCoderGroups_fst:
  "fst (ExpectedCoderGroups unicodeLower gs) = map (\<lambda>g. normalizedName unicodeLower (GName g)) (filter (\<lambda>g. GName g \<noteq> []) gs)"
  by (simp add: ExpectedCoderGroups_def ExpectedCoderGroups_loop_fst)

lemma ExpectedCoderGroups_snd:
  "snd (ExpectedCoderGroups unicodeLower gs) = map (\<lambda>g. LogNoGroupName (GEmail g)) (filter (\<lambda>g. GName g = []) gs)"
  by (simp add: ExpectedCoderGroups_def ExpectedCoderGroups_loop_snd)

lemma set_Difference: "set (Difference a b) = set a - set b"
  by (auto simp: Difference_def)

lemma distinct_Difference: "distinct (Difference a b)"
  by (simp add: Difference_def)

lemma cGroupNamesOf_eq: "cGroupNamesOf orgID cGroups = map Group_Name cGroups"
  by (simp add: cGroupNamesOf_def scanGroups_fst)

lemma everyoneGroupOf_eq:
  "everyoneGroupOf orgID cGroups =
     (case filter (\<lambda>g. Group_ID g = orgID) cGroups of [] \<Rightarrow> ''Everyone'' | f # fs \<Rightarrow> Group_Name (last (f # fs)))"
  by (simp add: everyoneGroupOf_def scanGroups_snd)

lemma set_expectedOf:
  "set (expectedOf unicodeLower orgID cGroups gGroups) =
     (\<lambda>g. normalizedName unicodeLower (GName g)) ` {g \<in> set gGroups. GName g \<noteq> []} \<union> {everyoneGroupOf orgID cGroups}"
  by (auto simp: expectedOf_def ExpectedCoderGroups_fst)

lemma syncUser_eligible:
  assumes "User_LoginType user = LoginTypeOIDC" "HasSuffix (User_Email user) (''@'' @ domain)"
    and "GoogleGroups A (User_Email user) w = Inr gGroups"
    and "Groups A (userGroupArguments user) w = Inr cGroups"
  shows "syncUser unicodeLower A domain orgID w user st =
     ([CallGoogleGroups (User_Email user), CallGroups (userGroupArguments user)] @ snd (ExpectedCoderGroups unicodeLower gGroups),
      Inr (st\<lparr>userByID := (userByID st)(User_ID user \<mapsto> user),
               oidcUserCount := oidcUserCount st + 1,
               coderGroupChanges := recordChanges (User_ID user) (fst (userDiff unicodeLower orgID cGroups gGroups))
                  (snd (userDiff unicodeLower orgID cGroups gGroups)) (coderGroupChanges st)\<rparr>))"
  using assms by (simp add: syncUser_def Let_def split: prod.splits)

lemma syncUser_ineligible:
  assumes "User_LoginType user \<noteq> LoginTypeOIDC \<or> \<not> HasSuffix (User_Email user) (''@'' @ domain)"
  shows "syncUser unicodeLower A domain orgID w user st = ([], Inr (st\<lparr>userByID := (userByID st)(User_ID user \<mapsto> user)\<rparr>))"
  using assms by (auto simp: syncUser_def Let_def)

lemma HasSuffix_iff: "HasSuffix s suf \<longleftrightarrow> (\<exists>p. s = p @ suf)"
proof
  assume "HasSuffix s suf"
  then have "s = take (length s - length suf) s @ suf"
    by (metis HasSuffix_def append_take_drop_id)
  then show "\<exists>p. s = p @ suf" ..
next
  assume "\<exists>p. s = p @ suf"
  then show "HasSuffix s suf" by (auto simp: HasSuffix_def)
qed

text \<open>
  Claim C1. With Expected the normalized names of the source groups (those with a name)
  together with the name of the everyone group, and Actual the names of the user's current
  target groups, the diff of the user is \<open>add = Expected - Actual\<close> and
  \<open>remove = Actual - Expected\<close> as sets. Neither list repeats a name, a name in both sets
  is in neither list, and the two results depend on the inputs only as sets: their order
  and their duplicates do not matter.
\<close>

theorem userDiff_set_subtraction:
  "set (fst (userDiff unicodeLower orgID cGroups gGroups)) =
     ((\<lambda>g. normalizedName unicodeLower (GName g)) ` {g \<in> set gGroups. GName g \<noteq> []} \<union> {everyoneGroupOf orgID cGroups})
       - Group_Name ` set cGroups
   \<and> set (snd (userDiff unicodeLower orgID cGroups gGroups)) =
     Group_Name ` set cGroups
       - ((\<lambda>g. normalizedName unicodeLower (GName g)) ` {g \<in> set gGroups. GName g \<noteq> []} \<union> {everyoneGroupOf orgID cGroups})
   \<and> distinct (fst (userDiff unicodeLower orgID cGroups gGroups))
   \<and> distinct (snd (userDiff unicodeLower orgID cGroups gGroups))
   \<and> (\<forall>n. n \<in> set (expectedOf unicodeLower orgID cGroups gGroups) \<and> n \<in> set (cGroupNamesOf orgID cGroups) \<longrightarrow>
          n \<notin> set (fst (userDiff unicodeLower orgID cGroups gGroups)) \<and> n \<notin> set (snd (userDiff unicodeLower orgID cGroups gGroups)))
   \<and> (set a = set a' \<and> set b = set b' \<longrightarrow>
          set (fst (SymmetricDifference a b)) = set (fst (SymmetricDifference a' b'))
        \<and> set (snd (SymmetricDifference a b)) = set (snd (SymmetricDifference a' b')))"
  by (simp add: userDiff_def SymmetricDifference_def set_Difference distinct_Difference
        set_expectedOf cGroupNamesOf_eq)

theorem userDiff_set_subtraction_witness:
  "userDiff (\<lambda>s. s) ''org'' [grpA, grpB, grpA]
      [\<lparr>GName = ''B'', GEmail = ''b@x''\<rparr>, \<lparr>GName = ''C'', GEmail = ''c@x''\<rparr>, \<lparr>GName = ''c'', GEmail = ''c2@x''\<rparr>]
     = ([''c'', ''Everyone''], [''A''])
   \<and> set (fst (SymmetricDifference [''A'', ''b''] [''b'', ''c''])) =
       set (fst (SymmetricDifference [''b'', ''A'', ''b''] [''c'', ''b'', ''c'']))"
proof -
  have sets: "set [''A'', ''b''] = set [''b'', ''A'', ''b''] \<and> set [''b'', ''c''] = set [''c'', ''b'', ''c'']"
    by auto
  have "set (fst (SymmetricDifference [''A'', ''b''] [''b'', ''c''])) =
       set (fst (SymmetricDifference [''b'', ''A'', ''b''] [''c'', ''b'', ''c'']))"
    using sets userDiff_set_subtraction [of _ _ _ _ "[''A'', ''b'']" "[''b'', ''A'', ''b'']"
        "[''b'', ''c'']" "[''c'', ''b'', ''c'']"]
    by blast
  moreover have "userDiff (\<lambda>s. s) ''org'' [grpA, grpB, grpA]
      [\<lparr>GName = ''B'', GEmail = ''b@x''\<rparr>, \<lparr>GName = ''C'', GEmail = ''c@x''\<rparr>, \<lparr>GName = ''c'', GEmail = ''c2@x''\<rparr>]
     = ([''c'', ''Everyone''], [''A''])"
    by (simp add: userDiff_def SymmetricDifference_def Difference_def cGroupNamesOf_def expectedOf_def
        everyoneGroupOf_def ExpectedCoderGroups_def normalizedName_def ToLower_def isASCII_def removeSpaces_def
        lowerChar_table grpA_def grpB_def)
  ultimately show ?thesis by simp
qed

text \<open>
  Claim C3. \<open>ExpectedCoderGroups\<close> maps every group that has a name to that name with
  its spaces removed and then lower-cased by \<open>strings.ToLower\<close>, in order; a group with an
  empty name gives no entry and one logged line. Removing the spaces drops every space
  byte and nothing else. The lower-case form of a text that is ASCII moves each byte from
  \<open>A\<close> to \<open>Z\<close> up by 32, to its lower-case letter, and keeps every other byte, so that no
  upper-case ASCII letter is left and "Cat Lovers" gives "catlovers"; the lower-case form
  of any other text is what the Unicode tables of the standard library answer, whatever
  that is. The empty name does not fail the run: whenever the two listings of an eligible
  user succeed, the round of that user ends in a state, after the two calls and the logged
  lines.
\<close>

theorem ExpectedCoderGroups_normalizes:
  "fst (ExpectedCoderGroups unicodeLower groups) =
     map (\<lambda>g. ToLower unicodeLower (removeSpaces (GName g))) (filter (\<lambda>g. GName g \<noteq> []) groups)
   \<and> snd (ExpectedCoderGroups unicodeLower groups) =
     map (\<lambda>g. LogNoGroupName (GEmail g)) (filter (\<lambda>g. GName g = []) groups)
   \<and> CHR '' '' \<notin> set (removeSpaces name)
   \<and> removeSpaces (s @ t) = removeSpaces s @ removeSpaces t
   \<and> removeSpaces [c] = (if c = CHR '' '' then [] else [c])
   \<and> (isASCII name1 \<longleftrightarrow> (\<forall>i < length name1. (of_char (name1 ! i) :: nat) < 128))
   \<and> (isASCII name1 \<longrightarrow>
        length (ToLower unicodeLower name1) = length name1
      \<and> (\<forall>i < length name1. (of_char (ToLower unicodeLower name1 ! i) :: nat) =
            (if 65 \<le> (of_char (name1 ! i) :: nat) \<and> (of_char (name1 ! i) :: nat) \<le> 90
             then of_char (name1 ! i) + 32 else of_char (name1 ! i)))
      \<and> (\<forall>i < length name1. \<not> (65 \<le> (of_char (ToLower unicodeLower name1 ! i) :: nat)
            \<and> (of_char (ToLower unicodeLower name1 ! i) :: nat) \<le> 90)))
   \<and> (\<not> isASCII name2 \<longrightarrow> ToLower unicodeLower name2 = unicodeLower name2)
   \<and> ToLower unicodeLower (removeSpaces ''Cat Lovers'') = ''catlovers''
   \<and> (User_LoginType user = LoginTypeOIDC \<and> HasSuffix (User_Email user) (''@'' @ domain)
        \<and> GoogleGroups A (User_Email user) w = Inr groups
        \<and> Groups A (userGroupArguments user) w = Inr cGroups
      \<longrightarrow> (\<exists>st'. syncUser unicodeLower A domain orgID w user st =
             ([CallGoogleGroups (User_Email user), CallGroups (userGroupArguments user)]
                @ map (\<lambda>g. LogNoGroupName (GEmail g)) (filter (\<lambda>g. GName g = []) groups),
              Inr st')))"
proof -
  have cat: "ToLower unicodeLower (removeSpaces ''Cat Lovers'') = ''catlovers''"
    using normalizedName_Cat_Lovers by (simp add: normalizedName_def)
  have sp: "CHR '' '' \<notin> set (removeSpaces name)"
      "removeSpaces (s @ t) = removeSpaces s @ removeSpaces t"
      "removeSpaces [c] = (if c = CHR '' '' then [] else [c])"
    by (simp_all add: removeSpaces_def)
  have asc: "isASCII name1 \<longleftrightarrow> (\<forall>i < length name1. (of_char (name1 ! i) :: nat) < 128)"
    by (simp add: isASCII_def list_all_length)
  have low: "isASCII name1 \<longrightarrow>
        length (ToLower unicodeLower name1) = length name1
      \<and> (\<forall>i < length name1. (of_char (ToLower unicodeLower name1 ! i) :: nat) =
            (if 65 \<le> (of_char (name1 ! i) :: nat) \<and> (of_char (name1 ! i) :: nat) \<le> 90
             then of_char (name1 ! i) + 32 else of_char (name1 ! i)))
      \<and> (\<forall>i < length name1. \<not> (65 \<le> (of_char (ToLower unicodeLower name1 ! i) :: nat)
            \<and> (of_char (ToLower unicodeLower name1 ! i) :: nat) \<le> 90))"
    by (simp add: ToLower_def lowerChar_byte)
  have uni: "\<not> isASCII name2 \<longrightarrow> ToLower unicodeLower name2 = unicodeLower name2"
    by (simp add: ToLower_def)
  have run: "User_LoginType user = LoginTypeOIDC \<and> HasSuffix (User_Email user) (''@'' @ domain)
        \<and> GoogleGroups A (User_Email user) w = Inr groups
        \<and> Groups A (userGroupArguments user) w = Inr cGroups
      \<longrightarrow> (\<exists>st'. syncUser unicodeLower A domain orgID w user st =
             ([CallGoogleGroups (User_Email user), CallGroups (userGroupArguments user)]
                @ map (\<lambda>g. LogNoGroupName (GEmail g)) (filter (\<lambda>g. GName g = []) groups),
              Inr st'))"
    by (auto simp: ExpectedCoderGroups_snd syncUser_eligible)
  have ex: "fst (ExpectedCoderGroups unicodeLower groups) =
     map (\<lambda>g. ToLower unicodeLower (removeSpaces (GName g))) (filter (\<lambda>g. GName g \<noteq> []) groups)"
      "snd (ExpectedCoderGroups unicodeLower groups) =
     map (\<lambda>g. LogNoGroupName (GEmail g)) (filter (\<lambda>g. GName g = []) groups)"
    by (simp_all add: ExpectedCoderGroups_fst ExpectedCoderGroups_snd normalizedName_def)
  from ex sp asc low uni cat run show ?thesis by (intro conjI)
qed

text \<open>
  An instance: the name "Cat Lovers", an empty name, and a name with a letter outside
  ASCII: "caf", the two bytes \<open>C3 A9\<close> (the letter e with an acute accent, in UTF-8), a
  space and "1". The last name has no upper-case letter, so the Unicode tables answer the
  text they are given.
\<close>

theorem ExpectedCoderGroups_normalizes_witness:
  "isASCII ''CatLovers''
   \<and> \<not> isASCII [CHR ''c'', CHR ''a'', CHR ''f'', CHR 0xC3, CHR 0xA9, CHR ''1'']
   \<and> ExpectedCoderGroups (\<lambda>s. s)
      [\<lparr>GName = ''Cat Lovers'', GEmail = ''cats@example.com''\<rparr>,
       \<lparr>GName = [], GEmail = ''anon@example.com''\<rparr>,
       \<lparr>GName = [CHR ''c'', CHR ''a'', CHR ''f'', CHR 0xC3, CHR 0xA9, CHR '' '', CHR ''1''],
        GEmail = ''cafe@example.com''\<rparr>]
     = ([''catlovers'', [CHR ''c'', CHR ''a'', CHR ''f'', CHR 0xC3, CHR 0xA9, CHR ''1'']],
        [LogNoGroupName ''anon@example.com''])
   \<and> (\<exists>st'. syncUser (\<lambda>s. s) worldAdapter ''example.com'' ''org-a'' world_names bob initial_state =
         ([CallGoogleGroups ''bob@example.com'', CallGroups \<lparr>Organization = [], HasMember = ''bob''\<rparr>,
           LogNoGroupName ''anon@example.com''], Inr st'))"
proof -
  have a: "isASCII ''CatLovers''"
    by (simp add: isASCII_def)
  have n: "\<not> isASCII [CHR ''c'', CHR ''a'', CHR ''f'', CHR 0xC3, CHR 0xA9, CHR ''1'']"
    by (simp add: isASCII_def)
  have elig: "User_LoginType bob = LoginTypeOIDC \<and> HasSuffix (User_Email bob) (''@'' @ ''example.com'')
      \<and> GoogleGroups worldAdapter (User_Email bob) world_names =
          Inr [\<lparr>GName = ''Cat Lovers'', GEmail = ''cats@example.com''\<rparr>, \<lparr>GName = [], GEmail = ''anon@example.com''\<rparr>]
      \<and> Groups worldAdapter (userGroupArguments bob) world_names =
          Inr [everyoneA]"
    by (simp add: bob_def LoginTypeOIDC_def HasSuffix_def worldAdapter_def world_GoogleGroups_def
          world_names_def world_Groups_def userGroupArguments_def isMember_def everyoneA_def)
  note t1 = ExpectedCoderGroups_normalizes [where unicodeLower = "\<lambda>s. s"
      and groups = "[\<lparr>GName = ''Cat Lovers'', GEmail = ''cats@example.com''\<rparr>,
       \<lparr>GName = [], GEmail = ''anon@example.com''\<rparr>,
       \<lparr>GName = [CHR ''c'', CHR ''a'', CHR ''f'', CHR 0xC3, CHR 0xA9, CHR '' '', CHR ''1''],
        GEmail = ''cafe@example.com''\<rparr>]"
      and ?name2.0 = "[CHR ''c'', CHR ''a'', CHR ''f'', CHR 0xC3, CHR 0xA9, CHR ''1'']"
      and ?name1.0 = "''CatLovers''" and name = "''Cat Lovers''" and s = "''Cat''" and t = "'' Lovers''"
      and c = "CHR '' ''"
      and user = bob and domain = "''example.com''" and A = worldAdapter and w = world_names
      and cGroups = "[everyoneA]" and orgID = "''org-a''" and st = initial_state]
  note t2 = ExpectedCoderGroups_normalizes [where unicodeLower = "\<lambda>s. s"
      and groups = "[\<lparr>GName = ''Cat Lovers'', GEmail = ''cats@example.com''\<rparr>, \<lparr>GName = [], GEmail = ''anon@example.com''\<rparr>]"
      and ?name2.0 = "[CHR ''c'', CHR ''a'', CHR ''f'', CHR 0xC3, CHR 0xA9, CHR ''1'']"
      and ?name1.0 = "''CatLovers''" and name = "''Cat Lovers''" and s = "''Cat''" and t = "'' Lovers''"
      and c = "CHR '' ''"
      and user = bob and domain = "''example.com''" and A = worldAdapter and w = world_names
      and cGroups = "[everyoneA]" and orgID = "''org-a''" and st = initial_state]
  have low: "ToLower (\<lambda>s. s) [CHR ''c'', CHR ''a'', CHR ''f'', CHR 0xC3, CHR 0xA9, CHR ''1'']
      = [CHR ''c'', CHR ''a'', CHR ''f'', CHR 0xC3, CHR 0xA9, CHR ''1'']"
    using t1 n by blast
  have cat: "ToLower (\<lambda>s. s) (removeSpaces ''Cat Lovers'') = ''catlovers''"
    using t1 by blast
  have "fst (ExpectedCoderGroups (\<lambda>s. s)
      [\<lparr>GName = ''Cat Lovers'', GEmail = ''cats@example.com''\<rparr>,
       \<lparr>GName = [], GEmail = ''anon@example.com''\<rparr>,
       \<lparr>GName = [CHR ''c'', CHR ''a'', CHR ''f'', CHR 0xC3, CHR 0xA9, CHR '' '', CHR ''1''],
        GEmail = ''cafe@example.com''\<rparr>])
     = [''catlovers'', [CHR ''c'', CHR ''a'', CHR ''f'', CHR 0xC3, CHR 0xA9, CHR ''1'']]
   \<and> snd (ExpectedCoderGroups (\<lambda>s. s)
      [\<lparr>GName = ''Cat Lovers'', GEmail = ''cats@example.com''\<rparr>,
       \<lparr>GName = [], GEmail = ''anon@example.com''\<rparr>,
       \<lparr>GName = [CHR ''c'', CHR ''a'', CHR ''f'', CHR 0xC3, CHR 0xA9, CHR '' '', CHR ''1''],
        GEmail = ''cafe@example.com''\<rparr>])
     = [LogNoGroupName ''anon@example.com'']"
    using t1 low cat by (simp add: removeSpaces_def)
  then have ex: "ExpectedCoderGroups (\<lambda>s. s)
      [\<lparr>GName = ''Cat Lovers'', GEmail = ''cats@example.com''\<rparr>,
       \<lparr>GName = [], GEmail = ''anon@example.com''\<rparr>,
       \<lparr>GName = [CHR ''c'', CHR ''a'', CHR ''f'', CHR 0xC3, CHR 0xA9, CHR '' '', CHR ''1''],
        GEmail = ''cafe@example.com''\<rparr>]
     = ([''catlovers'', [CHR ''c'', CHR ''a'', CHR ''f'', CHR 0xC3, CHR 0xA9, CHR ''1'']],
        [LogNoGroupName ''anon@example.com''])"
    by (simp add: prod_eq_iff)
  have "\<exists>st'. syncUser (\<lambda>s. s) worldAdapter ''example.com'' ''org-a'' world_names bob initial_state =
         ([CallGoogleGroups ''bob@example.com'', CallGroups \<lparr>Organization = [], HasMember = ''bob''\<rparr>,
           LogNoGroupName ''anon@example.com''], Inr st')"
    using t2 elig by (simp add: bob_def userGroupArguments_def)
  with a n ex show ?thesis by (intro conjI)
qed

subsection \<open>The everyone group\<close>

lemma everyoneGroupOf_none:
  "\<forall>g \<in> set cGroups. Group_ID g \<noteq> orgID \<Longrightarrow> everyoneGroupOf orgID cGroups = ''Everyone''"
  by (simp add: everyoneGroupOf_eq filter_empty_conv[THEN iffD2] split: list.splits)

lemma everyoneGroupOf_some:
  assumes "\<exists>g \<in> set cGroups. Group_ID g = orgID"
  shows "\<exists>g \<in> set cGroups. Group_ID g = orgID \<and> everyoneGroupOf orgID cGroups = Group_Name g"
proof -
  let ?fs = "filter (\<lambda>g. Group_ID g = orgID) cGroups"
  from assms have ne: "?fs \<noteq> []" by (auto simp: filter_empty_conv)
  then have "last ?fs \<in> set ?fs" by (rule last_in_set)
  moreover from ne have "everyoneGroupOf orgID cGroups = Group_Name (last ?fs)"
    by (simp add: everyoneGroupOf_eq split: list.splits)
  ultimately show ?thesis by auto
qed

lemma everyoneGroupOf_unique:
  assumes "distinct (map Group_ID cGroups)" "g \<in> set cGroups" "Group_ID g = orgID"
  shows "everyoneGroupOf orgID cGroups = Group_Name g"
proof -
  from assms(2,3) obtain g' where g': "g' \<in> set cGroups" "Group_ID g' = orgID"
      "everyoneGroupOf orgID cGroups = Group_Name g'"
    using everyoneGroupOf_some by blast
  from assms(1) have "inj_on Group_ID (set cGroups)" by (simp add: distinct_map)
  with g'(1,2) assms(2,3) have "g' = g" by (auto dest: inj_onD)
  with g'(3) show ?thesis by simp
qed

text \<open>
  Claim C8. The name of the everyone group is always the last of the expected names,
  whatever the source groups are, and it is never among the names to remove. It is
  "Everyone" when no current group of the user has the ID of the default organization,
  and the name of a current group with that ID otherwise (of the one such group, when the
  IDs of the groups are distinct).
\<close>

theorem everyone_group_always_expected:
  "everyoneGroupOf orgID cGroups \<in> set (expectedOf unicodeLower orgID cGroups gGroups)
   \<and> expectedOf unicodeLower orgID cGroups gGroups = fst (ExpectedCoderGroups unicodeLower gGroups) @ [everyoneGroupOf orgID cGroups]
   \<and> everyoneGroupOf orgID cGroups \<notin> set (snd (userDiff unicodeLower orgID cGroups gGroups))
   \<and> ((\<forall>g \<in> set cGroups. Group_ID g \<noteq> orgID) \<longrightarrow> everyoneGroupOf orgID cGroups = ''Everyone'')
   \<and> ((\<exists>g \<in> set cGroups. Group_ID g = orgID) \<longrightarrow>
        (\<exists>g \<in> set cGroups. Group_ID g = orgID \<and> everyoneGroupOf orgID cGroups = Group_Name g))
   \<and> (distinct (map Group_ID cGroups) \<longrightarrow>
        (\<forall>g \<in> set cGroups. Group_ID g = orgID \<longrightarrow> everyoneGroupOf orgID cGroups = Group_Name g))"
proof -
  have "everyoneGroupOf orgID cGroups \<notin> set (snd (userDiff unicodeLower orgID cGroups gGroups))"
    by (simp add: userDiff_def SymmetricDifference_def set_Difference set_expectedOf)
  then show ?thesis
    using everyoneGroupOf_none [of cGroups orgID] everyoneGroupOf_some [of cGroups orgID]
      everyoneGroupOf_unique [of cGroups _ orgID]
    by (simp add: expectedOf_def)
qed

theorem everyone_group_always_expected_witness:
  "everyoneGroupOf ''org-a'' [grpCats, grpAll] = ''all-staff''
   \<and> everyoneGroupOf ''org-a'' [grpCats] = ''Everyone''
   \<and> userDiff (\<lambda>s. s) ''org-a'' [grpCats, grpAll] [] = ([], [''catlovers''])
   \<and> userDiff (\<lambda>s. s) ''org-a'' [grpCats] [] = ([''Everyone''], [''catlovers''])"
proof -
  have d: "distinct (map Group_ID [grpCats, grpAll])" "grpAll \<in> set [grpCats, grpAll]"
      "Group_ID grpAll = ''org-a''"
    by (simp_all add: grpCats_def grpAll_def)
  have n: "\<forall>g \<in> set [grpCats]. Group_ID g \<noteq> ''org-a''"
    by (simp add: grpCats_def)
  have "everyoneGroupOf ''org-a'' [grpCats, grpAll] = ''all-staff''"
    using everyone_group_always_expected [of "''org-a''" "[grpCats, grpAll]" _ "[]"] d
    by (simp add: grpAll_def)
  moreover have "everyoneGroupOf ''org-a'' [grpCats] = ''Everyone''"
    using everyone_group_always_expected [of "''org-a''" "[grpCats]" _ "[]"] n by blast
  moreover have "userDiff (\<lambda>s. s) ''org-a'' [grpCats, grpAll] [] = ([], [''catlovers''])"
    by (simp add: userDiff_def SymmetricDifference_def Difference_def cGroupNamesOf_def
        expectedOf_def everyoneGroupOf_def ExpectedCoderGroups_def grpCats_def grpAll_def)
  moreover have "userDiff (\<lambda>s. s) ''org-a'' [grpCats] [] = ([''Everyone''], [''catlovers''])"
    by (simp add: userDiff_def SymmetricDifference_def Difference_def cGroupNamesOf_def
        expectedOf_def everyoneGroupOf_def ExpectedCoderGroups_def grpCats_def)
  ultimately show ?thesis by simp
qed

subsection \<open>Users that are not eligible\<close>

text \<open>
  Claim C9. A user whose login type is not OIDC, or whose email does not end with "@"
  followed by the domain, is skipped: the round makes no call (neither the directory nor
  the target is asked) and logs nothing, ends without error, and leaves the change set and
  the count of eligible users as they were; the loop goes on with the next user.
\<close>

theorem ineligible_user_skipped:
  assumes "User_LoginType user \<noteq> LoginTypeOIDC \<or> \<not> (\<exists>p. User_Email user = p @ ''@'' @ domain)"
  shows "syncUser unicodeLower A domain orgID w user st =
           ([], Inr (st\<lparr>userByID := (userByID st)(User_ID user \<mapsto> user)\<rparr>))
       \<and> usersLoop unicodeLower A domain orgID w (user # users) st =
           usersLoop unicodeLower A domain orgID w users (st\<lparr>userByID := (userByID st)(User_ID user \<mapsto> user)\<rparr>)"
proof -
  from assms have "User_LoginType user \<noteq> LoginTypeOIDC \<or> \<not> HasSuffix (User_Email user) (''@'' @ domain)"
    by (simp add: HasSuffix_iff)
  then have "syncUser unicodeLower A domain orgID w user st =
           ([], Inr (st\<lparr>userByID := (userByID st)(User_ID user \<mapsto> user)\<rparr>))"
    by (rule syncUser_ineligible)
  then show ?thesis by (simp split: prod.splits)
qed

theorem ineligible_user_skipped_witness:
  "usersLoop (\<lambda>s. s) worldAdapter ''example.com'' ''org-a'' world_names [carol, dave] initial_state =
     ([], Inr \<lparr>userByID = [''u-carol'' \<mapsto> carol, ''u-dave'' \<mapsto> dave], coderGroupChanges = [],
               oidcUserCount = 0\<rparr>)"
proof -
  have c: "User_LoginType carol \<noteq> LoginTypeOIDC \<or> \<not> (\<exists>p. User_Email carol = p @ ''@'' @ ''example.com'')"
    by (simp add: carol_def LoginTypeOIDC_def)
  have "\<not> HasSuffix (User_Email dave) (''@'' @ ''example.com'')"
    by (simp add: dave_def HasSuffix_def)
  then have d: "User_LoginType dave \<noteq> LoginTypeOIDC \<or> \<not> (\<exists>p. User_Email dave = p @ ''@'' @ ''example.com'')"
    by (simp add: HasSuffix_iff)
  show ?thesis
    using ineligible_user_skipped [OF c, of "\<lambda>s. s" worldAdapter "''org-a''" world_names initial_state "[dave]"]
      ineligible_user_skipped [OF d, of "\<lambda>s. s" worldAdapter "''org-a''" world_names
        "initial_state\<lparr>userByID := (userByID initial_state)(User_ID carol \<mapsto> carol)\<rparr>" "[]"]
    by (simp add: initial_state_def carol_def dave_def)
qed

subsection \<open>Creation failures\<close>

lemma syncUser_events: "e \<in> set (fst (syncUser unicodeLower A domain orgID w user st)) \<Longrightarrow> isFetch e"
  by (auto simp: syncUser_def Let_def ExpectedCoderGroups_snd split: sum.splits prod.splits if_splits)

lemma usersLoop_events: "e \<in> set (fst (usersLoop unicodeLower A domain orgID w users st)) \<Longrightarrow> isFetch e"
proof (induction users arbitrary: st e)
  case Nil
  then show ?case by simp
next
  case (Cons user users)
  obtain ev r where su: "syncUser unicodeLower A domain orgID w user st = (ev, r)" by (cases "syncUser unicodeLower A domain orgID w user st")
  have evs: "\<And>x. x \<in> set ev \<Longrightarrow> isFetch x"
    using syncUser_events [of _ unicodeLower A domain orgID w user st] su by simp
  show ?case
  proof (cases r)
    case (Inl fatal)
    with Cons.prems su evs show ?thesis by simp
  next
    case (Inr st')
    obtain ev' r' where ul: "usersLoop unicodeLower A domain orgID w users st' = (ev', r')"
      by (cases "usersLoop unicodeLower A domain orgID w users st'")
    with Cons.IH [of _ st'] have "\<And>x. x \<in> set ev' \<Longrightarrow> isFetch x" by simp
    with Cons.prems su Inr ul evs show ?thesis by auto
  qed
qed

lemma failedGroups_simps [simp]:
  "failedGroups [] = {}"
  "failedGroups (CallCreateGroup org req # ev) = failedGroups ev"
  "failedGroups (LogCreateFailed g err # ev) = insert g (failedGroups ev)"
  by (auto simp: failedGroups_def)

lemma createLoop_changes:
  "createLoop A org ks (cgs, changes, created, w) = (ev, cgs', changes', created', w') \<Longrightarrow>
   changes' = filter (\<lambda>(g, req). g \<notin> failedGroups ev) changes"
proof (induction ks arbitrary: cgs changes created w ev)
  case Nil
  then show ?case by simp
next
  case (Cons grp ks)
  show ?case
  proof (cases "cgs grp = None")
    case False
    with Cons show ?thesis by simp
  next
    case True
    obtain r w1 where cg: "CreateGroup A org (newGroupRequest grp) w = (r, w1)"
      by (cases "CreateGroup A org (newGroupRequest grp) w")
    show ?thesis
    proof (cases r)
      case (Inl err)
      obtain ev0 where ev0: "createLoop A org ks (cgs, AList.delete grp changes, created, w1)
          = (ev0, cgs', changes', created', w')"
        and ev: "ev = CallCreateGroup org (newGroupRequest grp) # LogCreateFailed grp err # ev0"
        using Cons.prems True cg Inl by (auto split: prod.splits)
      from Cons.IH [OF ev0] have "changes' = filter (\<lambda>(g, req). g \<notin> failedGroups ev0) (AList.delete grp changes)" .
      then show ?thesis unfolding ev
        by (auto simp: AList.delete_eq case_prod_unfold intro!: filter_cong)
    next
      case (Inr newGroup)
      obtain ev0 where ev0: "createLoop A org ks (cgs(grp \<mapsto> newGroup), changes, created @ [newGroup], w1)
          = (ev0, cgs', changes', created', w')"
        and ev: "ev = CallCreateGroup org (newGroupRequest grp) # ev0"
        using Cons.prems True cg Inr by (auto split: prod.splits)
      from Cons.IH [OF ev0] show ?thesis unfolding ev by simp
    qed
  qed
qed

lemma createLoop_resolved:
  "createLoop A org ks (cgs, changes, created, w) = (ev, cgs', changes', created', w') \<Longrightarrow>
   (\<forall>g. cgs g \<noteq> None \<longrightarrow> cgs' g \<noteq> None)
   \<and> (\<forall>g \<in> set ks. g \<in> failedGroups ev \<or> cgs' g \<noteq> None)
   \<and> failedGroups ev \<subseteq> {g \<in> set ks. cgs g = None}"
proof (induction ks arbitrary: cgs changes created w ev)
  case Nil
  then show ?case by simp
next
  case (Cons grp ks)
  show ?case
  proof (cases "cgs grp = None")
    case False
    with Cons.prems have "createLoop A org ks (cgs, changes, created, w) = (ev, cgs', changes', created', w')"
      by simp
    from Cons.IH [OF this] False show ?thesis by auto
  next
    case True
    obtain r w1 where cg: "CreateGroup A org (newGroupRequest grp) w = (r, w1)"
      by (cases "CreateGroup A org (newGroupRequest grp) w")
    show ?thesis
    proof (cases r)
      case (Inl err)
      obtain ev0 where ev0: "createLoop A org ks (cgs, AList.delete grp changes, created, w1)
          = (ev0, cgs', changes', created', w')"
        and ev: "ev = CallCreateGroup org (newGroupRequest grp) # LogCreateFailed grp err # ev0"
        using Cons.prems True cg Inl by (auto split: prod.splits)
      from Cons.IH [OF ev0] True show ?thesis unfolding ev by auto
    next
      case (Inr newGroup)
      obtain ev0 where ev0: "createLoop A org ks (cgs(grp \<mapsto> newGroup), changes, created @ [newGroup], w1)
          = (ev0, cgs', changes', created', w')"
        and ev: "ev = CallCreateGroup org (newGroupRequest grp) # ev0"
        using Cons.prems True cg Inr by (auto split: prod.splits)
      from Cons.IH [OF ev0] True show ?thesis unfolding ev by (auto split: if_splits)
    qed
  qed
qed

lemma createLoop_fails:
  "createLoop A org ks (cgs, changes, created, w) = (ev, cgs', changes', created', w') \<Longrightarrow>
   g \<in> set ks \<Longrightarrow> cgs g = None \<Longrightarrow>
   \<forall>w. fst (CreateGroup A org (newGroupRequest g) w) = Inl e \<Longrightarrow>
   LogCreateFailed g e \<in> set ev"
proof (induction ks arbitrary: cgs changes created w ev)
  case Nil
  then show ?case by simp
next
  case (Cons grp ks)
  show ?case
  proof (cases "cgs grp = None")
    case False
    with Cons.prems have "createLoop A org ks (cgs, changes, created, w) = (ev, cgs', changes', created', w')"
      and "g \<in> set ks"
      by auto
    with Cons.IH Cons.prems(3,4) show ?thesis by blast
  next
    case True
    obtain r w1 where cg: "CreateGroup A org (newGroupRequest grp) w = (r, w1)"
      by (cases "CreateGroup A org (newGroupRequest grp) w")
    show ?thesis
    proof (cases r)
      case (Inl err)
      obtain ev0 where ev0: "createLoop A org ks (cgs, AList.delete grp changes, created, w1)
          = (ev0, cgs', changes', created', w')"
        and ev: "ev = CallCreateGroup org (newGroupRequest grp) # LogCreateFailed grp err # ev0"
        using Cons.prems(1) True cg Inl by (auto split: prod.splits)
      show ?thesis
      proof (cases "g = grp")
        case True
        with Cons.prems(4) cg Inl have "err = e"
          by (metis fst_conv sum.inject(1))
        with True ev show ?thesis by simp
      next
        case False
        with Cons.prems(2) have "g \<in> set ks" by simp
        from Cons.IH [OF ev0 this Cons.prems(3,4)] ev show ?thesis by simp
      qed
    next
      case (Inr newGroup)
      obtain ev0 where ev0: "createLoop A org ks (cgs(grp \<mapsto> newGroup), changes, created @ [newGroup], w1)
          = (ev0, cgs', changes', created', w')"
        and ev: "ev = CallCreateGroup org (newGroupRequest grp) # ev0"
        using Cons.prems(1) True cg Inr by (auto split: prod.splits)
      from Cons.prems(4) cg Inr have ne: "g \<noteq> grp"
        by (metis fst_conv sum.distinct(1))
      with Cons.prems(2,3) have "g \<in> set ks" "(cgs(grp \<mapsto> newGroup)) g = None" by simp_all
      from Cons.IH [OF ev0 this Cons.prems(4)] ev show ?thesis by simp
    qed
  qed
qed

lemma createLoop_succeeds:
  "createLoop A org ks (cgs, changes, created, w) = (ev, cgs', changes', created', w') \<Longrightarrow>
   \<forall>w. \<exists>newGroup. fst (CreateGroup A org (newGroupRequest g) w) = Inr newGroup \<Longrightarrow>
   g \<notin> failedGroups ev"
proof (induction ks arbitrary: cgs changes created w ev)
  case Nil
  then show ?case by simp
next
  case (Cons grp ks)
  show ?case
  proof (cases "cgs grp = None")
    case False
    with Cons.prems have "createLoop A org ks (cgs, changes, created, w) = (ev, cgs', changes', created', w')"
      by auto
    with Cons.IH Cons.prems(2) show ?thesis by blast
  next
    case True
    obtain r w1 where cg: "CreateGroup A org (newGroupRequest grp) w = (r, w1)"
      by (cases "CreateGroup A org (newGroupRequest grp) w")
    show ?thesis
    proof (cases r)
      case (Inl err)
      obtain ev0 where ev0: "createLoop A org ks (cgs, AList.delete grp changes, created, w1)
          = (ev0, cgs', changes', created', w')"
        and ev: "ev = CallCreateGroup org (newGroupRequest grp) # LogCreateFailed grp err # ev0"
        using Cons.prems(1) True cg Inl by (auto split: prod.splits)
      from Cons.prems(2) cg Inl have "g \<noteq> grp"
        by (metis fst_conv sum.distinct(1))
      with Cons.IH [OF ev0 Cons.prems(2)] ev show ?thesis by simp
    next
      case (Inr newGroup)
      obtain ev0 where ev0: "createLoop A org ks (cgs(grp \<mapsto> newGroup), changes, created @ [newGroup], w1)
          = (ev0, cgs', changes', created', w')"
        and ev: "ev = CallCreateGroup org (newGroupRequest grp) # ev0"
        using Cons.prems(1) True cg Inr by (auto split: prod.splits)
      from Cons.IH [OF ev0 Cons.prems(2)] ev show ?thesis by simp
    qed
  qed
qed

lemma applyLoop_complete:
  "applyLoop A lookupUser cgs changes w = (ev, None, w') \<Longrightarrow>
   patchedGroups ev = map fst changes
   \<and> patchCalls ev = map (\<lambda>(g, req). (Group_ID (the (cgs g)), req)) changes"
proof (induction changes arbitrary: w ev)
  case Nil
  then show ?case by simp
next
  case (Cons entry changes)
  obtain grp req where entry: "entry = (grp, req)" by (cases entry)
  from Cons.prems entry obtain coderGroup where cg: "cgs grp = Some coderGroup"
    by (auto split: option.splits)
  obtain a w1 where pg: "PatchGroup A (Group_ID coderGroup) req w = (a, w1)"
    by (cases "PatchGroup A (Group_ID coderGroup) req w")
  from Cons.prems entry cg pg obtain patched where a: "a = Inr patched"
    by (cases a) auto
  obtain ev0 where ev0: "applyLoop A lookupUser cgs changes w1 = (ev0, None, w')"
    and ev: "ev = CallPatchGroup (Group_ID coderGroup) req
                # LogGroupPatched grp (length (AddUsers req)) (length (RemoveUsers req))
                    (UserIDsToNames lookupUser (AddUsers req))
                    (UserIDsToNames lookupUser (RemoveUsers req)) # ev0"
    using Cons.prems entry cg pg a by (auto split: prod.splits)
  from Cons.IH [OF ev0] show ?case unfolding ev entry by (simp add: cg)
qed

lemma map_of_filter_key:
  "map_of (filter (\<lambda>(k, v). P k) xs) k = (if P k then map_of xs k else None)"
  by (induction xs) auto

lemma applyLoop_Cons_Inr:
  assumes "applyLoop A lookupUser cgs ((grp, req) # changes) w = (ev, r, w')"
    and "cgs grp = Some coderGroup"
    and "PatchGroup A (Group_ID coderGroup) req w = (Inr patched, w1)"
  obtains ev0 where "applyLoop A lookupUser cgs changes w1 = (ev0, r, w')"
    and "ev = CallPatchGroup (Group_ID coderGroup) req
                # LogGroupPatched grp (length (AddUsers req)) (length (RemoveUsers req))
                    (UserIDsToNames lookupUser (AddUsers req))
                    (UserIDsToNames lookupUser (RemoveUsers req)) # ev0"
  using assms by (auto split: prod.splits)

lemma applyLoop_logged:
  "applyLoop A lookupUser cgs changes w = (ev, r, w') \<Longrightarrow> set (patchedGroups ev) \<subseteq> fst ` set changes"
proof (induction changes arbitrary: w ev)
  case Nil
  then show ?case by simp
next
  case (Cons entry changes)
  obtain grp req where entry: "entry = (grp, req)" by (cases entry)
  show ?case
  proof (cases "cgs grp")
    case None
    with Cons.prems entry show ?thesis by simp
  next
    case (Some coderGroup)
    obtain a w1 where pg: "PatchGroup A (Group_ID coderGroup) req w = (a, w1)"
      by (cases "PatchGroup A (Group_ID coderGroup) req w")
    show ?thesis
    proof (cases a)
      case (Inl err)
      with Cons.prems entry Some pg show ?thesis by auto
    next
      case (Inr patched)
      from Cons.prems [unfolded entry] Some pg [unfolded Inr]
      obtain ev0 where ev0: "applyLoop A lookupUser cgs changes w1 = (ev0, r, w')"
        and ev: "ev = CallPatchGroup (Group_ID coderGroup) req
                # LogGroupPatched grp (length (AddUsers req)) (length (RemoveUsers req))
                    (UserIDsToNames lookupUser (AddUsers req))
                    (UserIDsToNames lookupUser (RemoveUsers req)) # ev0"
        by (rule applyLoop_Cons_Inr)
      from Cons.IH [OF ev0] have "set (patchedGroups ev0) \<subseteq> fst ` set changes" .
      then show ?thesis unfolding ev entry by auto
    qed
  qed
qed

lemma applyLoop_called:
  "applyLoop A lookupUser cgs changes w = (ev, r, w') \<Longrightarrow> (gid, req') \<in> set (patchCalls ev) \<Longrightarrow>
   \<exists>g coderGroup. (g, req') \<in> set changes \<and> cgs g = Some coderGroup \<and> Group_ID coderGroup = gid"
proof (induction changes arbitrary: w ev)
  case Nil
  then show ?case by simp
next
  case (Cons entry changes)
  obtain grp req where entry: "entry = (grp, req)" by (cases entry)
  show ?case
  proof (cases "cgs grp")
    case None
    with Cons.prems entry show ?thesis by simp
  next
    case (Some coderGroup)
    obtain a w1 where pg: "PatchGroup A (Group_ID coderGroup) req w = (a, w1)"
      by (cases "PatchGroup A (Group_ID coderGroup) req w")
    show ?thesis
    proof (cases a)
      case (Inl err)
      with Cons.prems entry Some pg have "gid = Group_ID coderGroup" "req' = req" by auto
      with Some entry show ?thesis by auto
    next
      case (Inr patched)
      from Cons.prems(1) [unfolded entry] Some pg [unfolded Inr]
      obtain ev0 where ev0: "applyLoop A lookupUser cgs changes w1 = (ev0, r, w')"
        and ev: "ev = CallPatchGroup (Group_ID coderGroup) req
                # LogGroupPatched grp (length (AddUsers req)) (length (RemoveUsers req))
                    (UserIDsToNames lookupUser (AddUsers req))
                    (UserIDsToNames lookupUser (RemoveUsers req)) # ev0"
        by (rule applyLoop_Cons_Inr)
      show ?thesis
      proof (cases "(gid, req') \<in> set (patchCalls ev0)")
        case True
        from Cons.IH [OF ev0 True] show ?thesis by auto
      next
        case False
        with Cons.prems(2) ev have "gid = Group_ID coderGroup" "req' = req" by simp_all
        with Some entry show ?thesis by auto
      qed
    qed
  qed
qed

lemma applyLoop_not_found:
  "applyLoop A lookupUser cgs changes w = (ev, Some (GroupNotFound g), w') \<Longrightarrow>
   g \<in> fst ` set changes \<and> cgs g = None"
proof (induction changes arbitrary: w ev)
  case Nil
  then show ?case by simp
next
  case (Cons entry changes)
  obtain grp req where entry: "entry = (grp, req)" by (cases entry)
  show ?case
  proof (cases "cgs grp")
    case None
    with Cons.prems entry show ?thesis by simp
  next
    case (Some coderGroup)
    obtain a w1 where pg: "PatchGroup A (Group_ID coderGroup) req w = (a, w1)"
      by (cases "PatchGroup A (Group_ID coderGroup) req w")
    show ?thesis
    proof (cases a)
      case (Inl err)
      with Cons.prems entry Some pg show ?thesis by auto
    next
      case (Inr patched)
      from Cons.prems(1) [unfolded entry] Some pg [unfolded Inr]
      obtain ev0 where ev0: "applyLoop A lookupUser cgs changes w1 = (ev0, Some (GroupNotFound g), w')"
        by (rule applyLoop_Cons_Inr)
      from Cons.IH [OF ev0] show ?thesis by auto
    qed
  qed
qed

text \<open>
  Go leaves the order of a \<open>range\<close> over a map open. In whatever order \<open>ks\<close> the creation
  loop visits the keys of the change set, a group whose creation fails loses its whole
  entry and is logged, and the entries of all other groups stay as they were. In whatever
  order the loop that applies the changes visits the remaining entries, every patch sent
  belongs to a remaining entry, and every remaining group is resolved.
\<close>

lemma createLoop_applyLoop_any_order:
  assumes "set ks = fst ` set changes"
    and "createLoop A org ks (cgs, changes, [], w) = (ev1, cgs', changes', created, w')"
    and "set entries = set changes'"
    and "applyLoop A lookupUser cgs' entries w' = (ev2, r, w'')"
  shows "changes' = filter (\<lambda>(g, req). g \<notin> failedGroups ev1) changes
     \<and> (\<forall>g \<in> failedGroups ev1.
           map_of changes' g = None \<and> g \<notin> fst ` set changes' \<and> g \<notin> set (patchedGroups ev2)
           \<and> cgs g = None \<and> g \<in> fst ` set changes)
     \<and> (\<forall>g. g \<notin> failedGroups ev1 \<longrightarrow> map_of changes' g = map_of changes g)
     \<and> (\<forall>g e. g \<in> fst ` set changes \<and> cgs g = None
              \<and> (\<forall>w. fst (CreateGroup A org (newGroupRequest g) w) = Inl e)
            \<longrightarrow> g \<in> failedGroups ev1)
     \<and> (\<forall>g. (\<forall>w. \<exists>newGroup. fst (CreateGroup A org (newGroupRequest g) w) = Inr newGroup)
            \<longrightarrow> g \<notin> failedGroups ev1)
     \<and> (\<forall>gid req. (gid, req) \<in> set (patchCalls ev2) \<longrightarrow>
            (\<exists>g coderGroup. (g, req) \<in> set changes' \<and> cgs' g = Some coderGroup
                \<and> Group_ID coderGroup = gid))
     \<and> (\<forall>g. r \<noteq> Some (GroupNotFound g))
     \<and> (r = None \<longrightarrow> patchedGroups ev2 = map fst entries
            \<and> patchCalls ev2 = map (\<lambda>(g, req). (Group_ID (the (cgs' g)), req)) entries)
     \<and> (ks = map fst changes \<longrightarrow>
          createMissingGroups A org cgs changes w =
            (ev1 @ (if length created > 0 then [LogCreated created] else []),
             (cgs', changes', None), w'))"
proof -
  note ch = createLoop_changes [OF assms(2)]
  note res = createLoop_resolved [OF assms(2)]
  have keys': "fst ` set changes' = fst ` set changes - failedGroups ev1"
    unfolding ch by force
  have failed: "\<forall>g \<in> failedGroups ev1.
           map_of changes' g = None \<and> g \<notin> fst ` set changes' \<and> g \<notin> set (patchedGroups ev2)
           \<and> cgs g = None \<and> g \<in> fst ` set changes"
  proof
    fix g assume g: "g \<in> failedGroups ev1"
    have "map_of changes' g = None" unfolding ch using g by (simp add: map_of_filter_key)
    moreover have "g \<notin> fst ` set changes'" using g keys' by simp
    moreover have "g \<notin> set (patchedGroups ev2)"
      using applyLoop_logged [OF assms(4)] g keys' assms(3) by auto
    moreover have "cgs g = None \<and> g \<in> fst ` set changes" using res g assms(1) by auto
    ultimately show "map_of changes' g = None \<and> g \<notin> fst ` set changes' \<and> g \<notin> set (patchedGroups ev2)
           \<and> cgs g = None \<and> g \<in> fst ` set changes" by simp
  qed
  have kept: "\<forall>g. g \<notin> failedGroups ev1 \<longrightarrow> map_of changes' g = map_of changes g"
    unfolding ch by (simp add: map_of_filter_key)
  have fails: "\<forall>g e. g \<in> fst ` set changes \<and> cgs g = None
              \<and> (\<forall>w. fst (CreateGroup A org (newGroupRequest g) w) = Inl e)
            \<longrightarrow> g \<in> failedGroups ev1"
  proof (intro allI impI)
    fix g e
    assume a: "g \<in> fst ` set changes \<and> cgs g = None
              \<and> (\<forall>w. fst (CreateGroup A org (newGroupRequest g) w) = Inl e)"
    then have "g \<in> set ks" using assms(1) by simp
    from createLoop_fails [OF assms(2) this] a have "LogCreateFailed g e \<in> set ev1" by blast
    then show "g \<in> failedGroups ev1" by (auto simp: failedGroups_def)
  qed
  have succ: "\<forall>g. (\<forall>w. \<exists>newGroup. fst (CreateGroup A org (newGroupRequest g) w) = Inr newGroup)
            \<longrightarrow> g \<notin> failedGroups ev1"
    using createLoop_succeeds [OF assms(2)] by blast
  have calls: "\<forall>gid req. (gid, req) \<in> set (patchCalls ev2) \<longrightarrow>
            (\<exists>g coderGroup. (g, req) \<in> set changes' \<and> cgs' g = Some coderGroup
                \<and> Group_ID coderGroup = gid)"
    using applyLoop_called [OF assms(4)] assms(3) by blast
  have found: "\<forall>g. r \<noteq> Some (GroupNotFound g)"
  proof (intro allI notI)
    fix g assume "r = Some (GroupNotFound g)"
    with assms(4) have "applyLoop A lookupUser cgs' entries w' = (ev2, Some (GroupNotFound g), w'')"
      by simp
    then have "g \<in> fst ` set entries \<and> cgs' g = None"
      by (rule applyLoop_not_found)
    with keys' res assms(1,3) show False by auto
  qed
  have complete: "r = None \<longrightarrow> patchedGroups ev2 = map fst entries
            \<and> patchCalls ev2 = map (\<lambda>(g, req). (Group_ID (the (cgs' g)), req)) entries"
  proof
    assume "r = None"
    with assms(4) have "applyLoop A lookupUser cgs' entries w' = (ev2, None, w'')" by simp
    then show "patchedGroups ev2 = map fst entries
            \<and> patchCalls ev2 = map (\<lambda>(g, req). (Group_ID (the (cgs' g)), req)) entries"
      by (rule applyLoop_complete)
  qed
  have cm: "ks = map fst changes \<longrightarrow>
          createMissingGroups A org cgs changes w =
            (ev1 @ (if length created > 0 then [LogCreated created] else []),
             (cgs', changes', None), w')"
  proof
    assume "ks = map fst changes"
    with assms(2) have "createLoop A org (map fst changes) (cgs, changes, [], w)
        = (ev1, cgs', changes', created, w')" by simp
    then show "createMissingGroups A org cgs changes w =
            (ev1 @ (if length created > 0 then [LogCreated created] else []),
             (cgs', changes', None), w')"
      by (simp add: createMissingGroups_def)
  qed
  from ch failed kept fails succ calls found complete cm show ?thesis by blast
qed

subsection \<open>The start and the end of \<open>SyncGroups\<close>\<close>

lemma SyncGroups_no_default_organization:
  assumes "Organizations A w = Inr coderOrganizations"
    and "\<forall>org \<in> set coderOrganizations. \<not> Org_IsDefault org"
  shows "SyncGroups unicodeLower A domain w = ([CallOrganizations], Returned ''default organization not found'', w)"
proof -
  from assms(2) have "find Org_IsDefault coderOrganizations = None"
    by (simp add: find_None_iff)
  with assms(1) show ?thesis by (simp add: SyncGroups_def defaultOrganization_def)
qed

lemma createLoop_events:
  "createLoop A org ks s = (ev, s') \<Longrightarrow> e \<in> set ev \<Longrightarrow>
   (\<exists>g. e = CallCreateGroup org (newGroupRequest g)) \<or> (\<exists>g err. e = LogCreateFailed g err)"
proof (induction A org ks s arbitrary: ev rule: createLoop.induct)
  case (1 A org s)
  then show ?case by simp
next
  case (2 A org grp ks cgs changes createdGroups w)
  show ?case
  proof (cases "cgs grp = None")
    case False
    with 2 show ?thesis by simp
  next
    case True
    obtain r w1 where cg: "CreateGroup A org (newGroupRequest grp) w = (r, w1)"
      by (cases "CreateGroup A org (newGroupRequest grp) w")
    show ?thesis
    proof (cases r)
      case (Inl err)
      obtain ev0 where ev0: "createLoop A org ks (cgs, AList.delete grp changes, createdGroups, w1) = (ev0, s')"
        and ev: "ev = CallCreateGroup org (newGroupRequest grp) # LogCreateFailed grp err # ev0"
        using "2.prems"(1) True cg Inl by (auto split: prod.splits)
      from "2.IH"(1) [OF True cg [symmetric] Inl ev0] "2.prems"(2) ev show ?thesis by auto
    next
      case (Inr newGroup)
      obtain ev0 where ev0: "createLoop A org ks (cgs(grp \<mapsto> newGroup), changes, createdGroups @ [newGroup], w1) = (ev0, s')"
        and ev: "ev = CallCreateGroup org (newGroupRequest grp) # ev0"
        using "2.prems"(1) True cg Inr by (auto split: prod.splits)
      from "2.IH"(2) [OF True cg [symmetric] Inr ev0] "2.prems"(2) ev show ?thesis by auto
    qed
  qed
qed

lemma applyLoop_events:
  "applyLoop A lookupUser cgs changes w = (ev, r, w') \<Longrightarrow> e \<in> set ev \<Longrightarrow>
   (\<exists>gid req. e = CallPatchGroup gid req) \<or> (\<exists>g n m as rs. e = LogGroupPatched g n m as rs)"
proof (induction changes arbitrary: w ev)
  case Nil
  then show ?case by simp
next
  case (Cons entry changes)
  obtain grp req where entry: "entry = (grp, req)" by (cases entry)
  show ?case
  proof (cases "cgs grp")
    case None
    with Cons.prems entry show ?thesis by auto
  next
    case (Some coderGroup)
    obtain a w1 where pg: "PatchGroup A (Group_ID coderGroup) req w = (a, w1)"
      by (cases "PatchGroup A (Group_ID coderGroup) req w")
    show ?thesis
    proof (cases a)
      case (Inl err)
      with Cons.prems entry Some pg show ?thesis by auto
    next
      case (Inr patched)
      from Cons.prems(1) [unfolded entry] Some pg [unfolded Inr]
      obtain ev0 where ev0: "applyLoop A lookupUser cgs changes w1 = (ev0, r, w')"
        and ev: "ev = CallPatchGroup (Group_ID coderGroup) req
                # LogGroupPatched grp (length (AddUsers req)) (length (RemoveUsers req))
                    (UserIDsToNames lookupUser (AddUsers req))
                    (UserIDsToNames lookupUser (RemoveUsers req)) # ev0"
        by (rule applyLoop_Cons_Inr)
      from Cons.IH [OF ev0] Cons.prems(2) ev show ?thesis by auto
    qed
  qed
qed

lemma finishSync_empty:
  "coderGroupChanges st = [] \<Longrightarrow>
   finishSync A orgID cgs st w = ([LogNoChanges (oidcUserCount st)], Done, w)"
  by (simp add: finishSync_def)

lemma finishSync_nonempty:
  assumes "coderGroupChanges st \<noteq> []"
  shows "\<exists>ev1 cgs' changes' created w' ev2 r w''.
      createLoop A orgID (map fst (coderGroupChanges st)) (cgs, coderGroupChanges st, [], w)
        = (ev1, cgs', changes', created, w')
    \<and> applyLoop A (userByID st) cgs' changes' w' = (ev2, r, w'')
    \<and> fst (finishSync A orgID cgs st w)
        = ev1 @ (if length created > 0 then [LogCreated created] else []) @ ev2
    \<and> snd (snd (finishSync A orgID cgs st w)) = w''"
proof -
  obtain ev1 cgs' changes' created w' where cl:
    "createLoop A orgID (map fst (coderGroupChanges st)) (cgs, coderGroupChanges st, [], w)
        = (ev1, cgs', changes', created, w')"
    by (metis prod_cases5)
  obtain ev2 r w'' where al: "applyLoop A (userByID st) cgs' changes' w' = (ev2, r, w'')"
    by (metis prod_cases3)
  have "fst (finishSync A orgID cgs st w)
        = ev1 @ (if length created > 0 then [LogCreated created] else []) @ ev2
      \<and> snd (snd (finishSync A orgID cgs st w)) = w''"
    using assms cl al
    by (auto simp: finishSync_def createMissingGroups_def applyGroupChanges_def
          split: option.splits apply_error.splits)
  with cl al show ?thesis by blast
qed

lemma finishSync_nonempty_no_report:
  assumes "coderGroupChanges st \<noteq> []"
  shows "\<not> isNoChanges e \<or> e \<notin> set (fst (finishSync A orgID cgs st w))"
proof -
  from finishSync_nonempty [OF assms, of A orgID cgs w]
  obtain ev1 cgs' changes' created w' ev2 r w'' where
    cl: "createLoop A orgID (map fst (coderGroupChanges st)) (cgs, coderGroupChanges st, [], w)
        = (ev1, cgs', changes', created, w')"
    and al: "applyLoop A (userByID st) cgs' changes' w' = (ev2, r, w'')"
    and ev: "fst (finishSync A orgID cgs st w)
        = ev1 @ (if length created > 0 then [LogCreated created] else []) @ ev2"
    by blast
  show ?thesis
  proof (cases "e \<in> set (fst (finishSync A orgID cgs st w))")
    case False
    then show ?thesis by simp
  next
    case True
    with ev have "e \<in> set ev1 \<or> e = LogCreated created \<or> e \<in> set ev2"
      by (auto split: if_splits)
    then have "\<not> isNoChanges e"
      using createLoop_events [OF cl, of e] applyLoop_events [OF al, of e] by auto
    then show ?thesis by simp
  qed
qed

lemma syncUser_count:
  "syncUser unicodeLower A domain orgID w user st = (ev, Inr st') \<Longrightarrow>
   oidcUserCount st' = oidcUserCount st + (if eligible domain user then 1 else 0)"
  by (auto simp: syncUser_def Let_def eligible_def split: if_splits sum.splits prod.splits)

lemma usersLoop_count:
  "usersLoop unicodeLower A domain orgID w users st = (ev, Inr st') \<Longrightarrow>
   oidcUserCount st' = oidcUserCount st + length (filter (eligible domain) users)"
proof (induction users arbitrary: st ev)
  case Nil
  then show ?case by simp
next
  case (Cons user users)
  obtain ev1 r where su: "syncUser unicodeLower A domain orgID w user st = (ev1, r)"
    by (cases "syncUser unicodeLower A domain orgID w user st")
  show ?case
  proof (cases r)
    case (Inl fatal)
    with Cons.prems su show ?thesis by simp
  next
    case (Inr st1)
    obtain ev2 r2 where ul: "usersLoop unicodeLower A domain orgID w users st1 = (ev2, r2)"
      by (cases "usersLoop unicodeLower A domain orgID w users st1")
    with Cons.prems su Inr have r2: "r2 = Inr st'" by simp
    from Cons.IH [OF ul [unfolded r2]] syncUser_count [OF su [unfolded Inr]]
    show ?thesis by simp
  qed
qed

lemma SyncGroups_after_loop:
  assumes "defaultOrganization A w = Inr defaultOrg"
    and "coderGroups A (Org_ID defaultOrg) w = Inr cgs"
    and "Users A w = Inr coderUsers"
    and "usersLoop unicodeLower A domain (Org_ID defaultOrg) w coderUsers initial_state = (ev, Inr st)"
  shows "SyncGroups unicodeLower A domain w =
      (setupEvents (Org_ID defaultOrg) @ ev @ fst (finishSync A (Org_ID defaultOrg) cgs st w),
       snd (finishSync A (Org_ID defaultOrg) cgs st w))"
  using assms by (simp add: SyncGroups_def split: prod.splits)

lemma SyncGroups_no_changes_report:
  assumes "defaultOrganization A w = Inr defaultOrg"
    and "coderGroups A (Org_ID defaultOrg) w = Inr cgs"
    and "Users A w = Inr coderUsers"
    and "usersLoop unicodeLower A domain (Org_ID defaultOrg) w coderUsers initial_state = (ev, Inr st)"
  shows "((\<exists>e \<in> set (fst (SyncGroups unicodeLower A domain w)). isNoChanges e) \<longleftrightarrow> coderGroupChanges st = [])
     \<and> (coderGroupChanges st = [] \<longrightarrow>
          SyncGroups unicodeLower A domain w =
            (setupEvents (Org_ID defaultOrg) @ ev
               @ [LogNoChanges (length (filter (eligible domain) coderUsers))], Done, w)
          \<and> (\<forall>e \<in> set (fst (SyncGroups unicodeLower A domain w)). \<not> isMutation e))"
proof -
  note sg = SyncGroups_after_loop [OF assms]
  have fetch: "\<And>e. e \<in> set ev \<Longrightarrow> isFetch e"
    using usersLoop_events [of _ unicodeLower A domain "Org_ID defaultOrg" w coderUsers initial_state] assms(4)
    by simp
  have count: "oidcUserCount st = length (filter (eligible domain) coderUsers)"
    using usersLoop_count [OF assms(4)] by (simp add: initial_state_def)
  have pre: "\<And>e. e \<in> set (setupEvents (Org_ID defaultOrg) @ ev) \<Longrightarrow> \<not> isNoChanges e \<and> \<not> isMutation e"
  proof -
    fix e assume "e \<in> set (setupEvents (Org_ID defaultOrg) @ ev)"
    then consider "e \<in> set (setupEvents (Org_ID defaultOrg))" | "e \<in> set ev" by auto
    then show "\<not> isNoChanges e \<and> \<not> isMutation e"
    proof cases
      case 1
      then show ?thesis by (auto simp: setupEvents_def)
    next
      case 2
      from fetch [OF this] show ?thesis by (cases e) simp_all
    qed
  qed
  show ?thesis
  proof (cases "coderGroupChanges st = []")
    case True
    have eq: "SyncGroups unicodeLower A domain w =
            (setupEvents (Org_ID defaultOrg) @ ev
               @ [LogNoChanges (length (filter (eligible domain) coderUsers))], Done, w)"
      unfolding sg by (simp add: finishSync_empty [OF True] count)
    have "\<forall>e \<in> set (fst (SyncGroups unicodeLower A domain w)). \<not> isMutation e"
      unfolding eq using pre by auto
    moreover have "\<exists>e \<in> set (fst (SyncGroups unicodeLower A domain w)). isNoChanges e"
      unfolding eq by simp
    ultimately show ?thesis using True eq by blast
  next
    case False
    have "\<forall>e \<in> set (fst (SyncGroups unicodeLower A domain w)). \<not> isNoChanges e"
    proof
      fix e assume "e \<in> set (fst (SyncGroups unicodeLower A domain w))"
      then have "e \<in> set (setupEvents (Org_ID defaultOrg) @ ev)
          \<or> e \<in> set (fst (finishSync A (Org_ID defaultOrg) cgs st w))"
        unfolding sg by auto
      then show "\<not> isNoChanges e"
        using pre [of e] finishSync_nonempty_no_report [OF False, of e A "Org_ID defaultOrg" cgs w]
        by blast
    qed
    with False show ?thesis by blast
  qed
qed

subsection \<open>A failed creation in a run\<close>























text \<open>
  The same run against the model of the remote systems: the group that is refused is
  logged, the other group is created and patched, and the run ends without error.
\<close>

lemma failed_creation_in_world_mixed:
  "SyncGroups unicodeLower worldAdapter ''example.com'' world_mixed =
     ([CallOrganizations, CallGroups \<lparr>Organization = ''org-a'', HasMember = []\<rparr>, CallUsers,
       CallGoogleGroups ''bob@example.com'', CallGroups \<lparr>Organization = [], HasMember = ''bob''\<rparr>,
       CallCreateGroup ''org-a'' (newGroupRequest ''dog_lovers''),
       LogCreateFailed ''dog_lovers'' ''name refused'',
       CallCreateGroup ''org-a'' (newGroupRequest ''catlovers''),
       LogCreated [newCats],
       CallPatchGroup ''g-1'' addBob,
       LogGroupPatched ''catlovers'' 1 0 [''bob@example.com''] []],
      Done,
      world_mixed\<lparr>w_groups := [everyoneA, newCats\<lparr>Group_Members := [''u-bob'']\<rparr>], w_fresh := []\<rparr>)"
  by code_simp

subsection \<open>Two runs in a row, within one organization\<close>

lemma world_Groups_user:
  "Groups worldAdapter (userGroupArguments user) w = Inr (userGroupsIn w user)"
  by (simp add: worldAdapter_def world_Groups_def userGroupArguments_def userGroupsIn_def)

lemma world_GoogleGroups_user:
  "GoogleGroups worldAdapter (User_Email user) w = Inr (directoryOf w user)"
  by (simp add: worldAdapter_def world_GoogleGroups_def directoryOf_def)

lemma requestOf_AddUser:
  "requestOf (AddUser c g u) g' =
     (if g' = g then (requestOf c g)\<lparr>AddUsers := AddUsers (requestOf c g) @ [u]\<rparr> else requestOf c g')"
  by (simp add: requestOf_def map_of_AddUser)

lemma requestOf_RemoveUser:
  "requestOf (RemoveUser c g u) g' =
     (if g' = g then (requestOf c g)\<lparr>RemoveUsers := RemoveUsers (requestOf c g) @ [u]\<rparr> else requestOf c g')"
  by (simp add: requestOf_def map_of_RemoveUser)

lemma keys_AddUser: "fst ` set (AddUser c g u) = insert g (fst ` set c)"
  by (auto simp: AddUser_def Let_def dom_update)

lemma keys_RemoveUser: "fst ` set (RemoveUser c g u) = insert g (fst ` set c)"
  by (auto simp: RemoveUser_def Let_def dom_update)

lemma distinct_AddUser: "distinct (map fst c) \<Longrightarrow> distinct (map fst (AddUser c g u))"
  by (simp add: AddUser_def Let_def distinct_update)

lemma distinct_RemoveUser: "distinct (map fst c) \<Longrightarrow> distinct (map fst (RemoveUser c g u))"
  by (simp add: RemoveUser_def Let_def distinct_update)

lemma fold_AddUser:
  "set (AddUsers (requestOf (fold (\<lambda>grp c'. AddUser c' grp u) add c) g)) =
     set (AddUsers (requestOf c g)) \<union> (if g \<in> set add then {u} else {})
   \<and> RemoveUsers (requestOf (fold (\<lambda>grp c'. AddUser c' grp u) add c) g) = RemoveUsers (requestOf c g)
   \<and> fst ` set (fold (\<lambda>grp c'. AddUser c' grp u) add c) = fst ` set c \<union> set add
   \<and> (distinct (map fst c) \<longrightarrow> distinct (map fst (fold (\<lambda>grp c'. AddUser c' grp u) add c)))"
proof (induction add arbitrary: c)
  case Nil
  then show ?case by simp
next
  case (Cons a add)
  show ?case
    using Cons.IH [of "AddUser c a u"]
    by (auto simp: requestOf_AddUser keys_AddUser distinct_AddUser)
qed

lemma fold_RemoveUser:
  "set (RemoveUsers (requestOf (fold (\<lambda>grp c'. RemoveUser c' grp u) rem c) g)) =
     set (RemoveUsers (requestOf c g)) \<union> (if g \<in> set rem then {u} else {})
   \<and> AddUsers (requestOf (fold (\<lambda>grp c'. RemoveUser c' grp u) rem c) g) = AddUsers (requestOf c g)
   \<and> fst ` set (fold (\<lambda>grp c'. RemoveUser c' grp u) rem c) = fst ` set c \<union> set rem
   \<and> (distinct (map fst c) \<longrightarrow> distinct (map fst (fold (\<lambda>grp c'. RemoveUser c' grp u) rem c)))"
proof (induction rem arbitrary: c)
  case Nil
  then show ?case by simp
next
  case (Cons a rem)
  show ?case
    using Cons.IH [of "RemoveUser c a u"]
    by (auto simp: requestOf_RemoveUser keys_RemoveUser distinct_RemoveUser)
qed

lemma recordChanges_sets:
  "set (AddUsers (requestOf (recordChanges u add rem c) g)) =
     set (AddUsers (requestOf c g)) \<union> (if g \<in> set add then {u} else {})"
  "set (RemoveUsers (requestOf (recordChanges u add rem c) g)) =
     set (RemoveUsers (requestOf c g)) \<union> (if g \<in> set rem then {u} else {})"
  "fst ` set (recordChanges u add rem c) = fst ` set c \<union> set add \<union> set rem"
  "distinct (map fst c) \<Longrightarrow> distinct (map fst (recordChanges u add rem c))"
  using fold_AddUser [of u add c g] fold_RemoveUser [of u rem "fold (\<lambda>grp c'. AddUser c' grp u) add c" g]
  by (simp_all add: recordChanges_def)

lemma recordChanges_nothing: "recordChanges u [] [] c = c"
  by (simp add: recordChanges_def)

lemma syncUser_world:
  "syncUser unicodeLower worldAdapter domain orgID w user st =
     (if eligible domain user
      then ([CallGoogleGroups (User_Email user), CallGroups (userGroupArguments user)]
              @ snd (ExpectedCoderGroups unicodeLower (directoryOf w user)),
            Inr (st\<lparr>userByID := (userByID st)(User_ID user \<mapsto> user),
                     oidcUserCount := oidcUserCount st + 1,
                     coderGroupChanges :=
                       recordChanges (User_ID user) (fst (diffIn unicodeLower orgID w user))
                         (snd (diffIn unicodeLower orgID w user)) (coderGroupChanges st)\<rparr>))
      else ([], Inr (st\<lparr>userByID := (userByID st)(User_ID user \<mapsto> user)\<rparr>)))"
proof (cases "eligible domain user")
  case True
  then have "User_LoginType user = LoginTypeOIDC" "HasSuffix (User_Email user) (''@'' @ domain)"
    by (simp_all add: eligible_def)
  from syncUser_eligible [OF this world_GoogleGroups_user world_Groups_user] True
  show ?thesis by (simp add: diffIn_def)
next
  case False
  then have "User_LoginType user \<noteq> LoginTypeOIDC \<or> \<not> HasSuffix (User_Email user) (''@'' @ domain)"
    by (simp add: eligible_def)
  from syncUser_ineligible [OF this] False show ?thesis by simp
qed

lemma usersLoop_world:
  "\<exists>ev st'. usersLoop unicodeLower worldAdapter domain orgID w users st = (ev, Inr st')
     \<and> coderGroupChanges st' = changesOf unicodeLower domain orgID w users (coderGroupChanges st)"
proof (induction users arbitrary: st)
  case Nil
  then show ?case by (simp add: changesOf_def)
next
  case (Cons user users)
  have "\<exists>ev1 st1. syncUser unicodeLower worldAdapter domain orgID w user st = (ev1, Inr st1)
      \<and> coderGroupChanges st1 = changesOf unicodeLower domain orgID w [user] (coderGroupChanges st)"
    by (cases "eligible domain user") (simp_all add: syncUser_world changesOf_def)
  then obtain ev1 st1 where su: "syncUser unicodeLower worldAdapter domain orgID w user st = (ev1, Inr st1)"
    and c1: "coderGroupChanges st1 = changesOf unicodeLower domain orgID w [user] (coderGroupChanges st)"
    by blast
  from Cons.IH [of st1] obtain ev st' where
    ul: "usersLoop unicodeLower worldAdapter domain orgID w users st1 = (ev, Inr st')"
    and c: "coderGroupChanges st' = changesOf unicodeLower domain orgID w users (coderGroupChanges st1)"
    by blast
  have "usersLoop unicodeLower worldAdapter domain orgID w (user # users) st = (ev1 @ ev, Inr st')"
    using su ul by simp
  moreover have "coderGroupChanges st' = changesOf unicodeLower domain orgID w (user # users) (coderGroupChanges st)"
    unfolding c c1 by (simp add: changesOf_def)
  ultimately show ?case by blast
qed

lemma changesOf_AddUsers:
  "uid \<in> set (AddUsers (requestOf (changesOf unicodeLower domain orgID w users c) g)) \<longleftrightarrow>
     uid \<in> set (AddUsers (requestOf c g))
     \<or> (\<exists>u \<in> set users. eligible domain u \<and> User_ID u = uid \<and> g \<in> set (fst (diffIn unicodeLower orgID w u)))"
proof (induction users arbitrary: c)
  case Nil
  then show ?case by (simp add: changesOf_def)
next
  case (Cons user users)
  have step: "changesOf unicodeLower domain orgID w (user # users) c =
      changesOf unicodeLower domain orgID w users (changesOf unicodeLower domain orgID w [user] c)"
    by (simp add: changesOf_def)
  show ?case unfolding step Cons.IH
    by (auto simp: changesOf_def recordChanges_sets)
qed

lemma changesOf_RemoveUsers:
  "uid \<in> set (RemoveUsers (requestOf (changesOf unicodeLower domain orgID w users c) g)) \<longleftrightarrow>
     uid \<in> set (RemoveUsers (requestOf c g))
     \<or> (\<exists>u \<in> set users. eligible domain u \<and> User_ID u = uid \<and> g \<in> set (snd (diffIn unicodeLower orgID w u)))"
proof (induction users arbitrary: c)
  case Nil
  then show ?case by (simp add: changesOf_def)
next
  case (Cons user users)
  have step: "changesOf unicodeLower domain orgID w (user # users) c =
      changesOf unicodeLower domain orgID w users (changesOf unicodeLower domain orgID w [user] c)"
    by (simp add: changesOf_def)
  show ?case unfolding step Cons.IH
    by (auto simp: changesOf_def recordChanges_sets)
qed

lemma changesOf_keys:
  "g \<in> fst ` set (changesOf unicodeLower domain orgID w users c) \<longleftrightarrow>
     g \<in> fst ` set c
     \<or> (\<exists>u \<in> set users. eligible domain u
           \<and> (g \<in> set (fst (diffIn unicodeLower orgID w u)) \<or> g \<in> set (snd (diffIn unicodeLower orgID w u))))"
proof (induction users arbitrary: c)
  case Nil
  then show ?case by (simp add: changesOf_def)
next
  case (Cons user users)
  have step: "changesOf unicodeLower domain orgID w (user # users) c =
      changesOf unicodeLower domain orgID w users (changesOf unicodeLower domain orgID w [user] c)"
    by (simp add: changesOf_def)
  show ?case unfolding step Cons.IH
    by (auto simp: changesOf_def recordChanges_sets)
qed

lemma changesOf_distinct:
  "distinct (map fst c) \<Longrightarrow> distinct (map fst (changesOf unicodeLower domain orgID w users c))"
proof (induction users arbitrary: c)
  case Nil
  then show ?case by (simp add: changesOf_def)
next
  case (Cons user users)
  have step: "changesOf unicodeLower domain orgID w (user # users) c =
      changesOf unicodeLower domain orgID w users (changesOf unicodeLower domain orgID w [user] c)"
    by (simp add: changesOf_def)
  show ?case unfolding step
    by (rule Cons.IH) (simp add: changesOf_def recordChanges_sets Cons.prems)
qed

lemma changesOf_nothing:
  "\<forall>u \<in> set users. eligible domain u \<longrightarrow> diffIn unicodeLower orgID w u = ([], []) \<Longrightarrow>
   changesOf unicodeLower domain orgID w users c = c"
  by (induction users arbitrary: c) (simp_all add: changesOf_def recordChanges_nothing)

lemma world_CreateGroup_Inl:
  "world_CreateGroup orgID req w = (Inl e, w') \<Longrightarrow> w' = w"
  by (auto simp: world_CreateGroup_def split: if_splits list.splits)

lemma world_CreateGroup_Inr:
  assumes "world_CreateGroup orgID (newGroupRequest name) w = (Inr g, w')" and "oneScope orgID w"
  shows "w' = w\<lparr>w_groups := w_groups w @ [g], w_fresh := tl (w_fresh w)\<rparr>"
    and "Group_Name g = name" and "Group_Members g = []" and "Group_ID g \<noteq> orgID"
    and "oneScope orgID w'"
proof -
  from assms(1) obtain newID ids where fresh: "w_fresh w = newID # ids"
    and g: "g = \<lparr>Group_ID = newID, Group_Name = name, Group_OrganizationID = orgID, Group_Members = []\<rparr>"
    and w': "w' = w\<lparr>w_groups := w_groups w @ [g], w_fresh := ids\<rparr>"
    and free: "\<not> list_ex (\<lambda>x. Group_OrganizationID x = orgID \<and> Group_Name x = name) (w_groups w)"
    by (auto simp: world_CreateGroup_def newGroupRequest_def split: if_splits list.splits)
  show "w' = w\<lparr>w_groups := w_groups w @ [g], w_fresh := tl (w_fresh w)\<rparr>"
    using w' fresh by simp
  show "Group_Name g = name" "Group_Members g = []" using g by simp_all
  show "Group_ID g \<noteq> orgID" using g fresh assms(2) by (auto simp: oneScope_def)
  from free assms(2) have "name \<notin> Group_Name ` set (w_groups w)"
    by (auto simp: oneScope_def list_ex_iff)
  then show "oneScope orgID w'"
    using assms(2) w' fresh g by (auto simp: oneScope_def)
qed

lemma createLoop_world:
  "createLoop worldAdapter orgID ks (cgs, changes, created, w) = (ev, cgs', changes', created', w') \<Longrightarrow>
   oneScope orgID w \<Longrightarrow> resolves cgs w \<Longrightarrow>
   oneScope orgID w' \<and> resolves cgs' w'
   \<and> w_users w' = w_users w \<and> w_orgs w' = w_orgs w \<and> w_directory w' = w_directory w
   \<and> (\<exists>news. w_groups w' = w_groups w @ news
         \<and> (\<forall>g \<in> set news. Group_Members g = [] \<and> Group_ID g \<noteq> orgID))"
proof (induction ks arbitrary: cgs changes created w ev)
  case Nil
  then show ?case by simp
next
  case (Cons grp ks)
  show ?case
  proof (cases "cgs grp = None")
    case False
    with Cons.prems(1) have "createLoop worldAdapter orgID ks (cgs, changes, created, w)
        = (ev, cgs', changes', created', w')" by simp
    from Cons.IH [OF this Cons.prems(2,3)] show ?thesis .
  next
    case True
    obtain r w1 where cg: "world_CreateGroup orgID (newGroupRequest grp) w = (r, w1)"
      by (cases "world_CreateGroup orgID (newGroupRequest grp) w")
    then have cg': "CreateGroup worldAdapter orgID (newGroupRequest grp) w = (r, w1)"
      by (simp add: worldAdapter_def)
    show ?thesis
    proof (cases r)
      case (Inl err)
      from cg Inl have w1: "w1 = w" by (simp add: world_CreateGroup_Inl)
      obtain ev0 where ev0: "createLoop worldAdapter orgID ks (cgs, AList.delete grp changes, created, w)
          = (ev0, cgs', changes', created', w')"
        using Cons.prems(1) True cg' Inl w1 by (auto split: prod.splits)
      from Cons.IH [OF ev0 Cons.prems(2,3)] show ?thesis .
    next
      case (Inr newGroup)
      note cr = world_CreateGroup_Inr [OF cg [unfolded Inr] Cons.prems(2)]
      obtain ev0 where ev0: "createLoop worldAdapter orgID ks
            (cgs(grp \<mapsto> newGroup), changes, created @ [newGroup], w1)
          = (ev0, cgs', changes', created', w')"
        using Cons.prems(1) True cg' Inr by (auto split: prod.splits)
      have res1: "resolves (cgs(grp \<mapsto> newGroup)) w1"
        using Cons.prems(3) cr(1,2) unfolding resolves_def by auto
      from Cons.IH [OF ev0 cr(5) res1] obtain news where
        a: "oneScope orgID w'" "resolves cgs' w'" "w_users w' = w_users w1" "w_orgs w' = w_orgs w1"
           "w_directory w' = w_directory w1"
        and n: "w_groups w' = w_groups w1 @ news"
           "\<forall>g \<in> set news. Group_Members g = [] \<and> Group_ID g \<noteq> orgID"
        by blast
      have "w_groups w' = w_groups w @ (newGroup # news)" using n(1) cr(1) by simp
      moreover have "\<forall>g \<in> set (newGroup # news). Group_Members g = [] \<and> Group_ID g \<noteq> orgID"
        using n(2) cr(3,4) by simp
      ultimately have "\<exists>news. w_groups w' = w_groups w @ news
         \<and> (\<forall>g \<in> set news. Group_Members g = [] \<and> Group_ID g \<noteq> orgID)" by blast
      with a cr(1) show ?thesis by simp
    qed
  qed
qed

lemma patchMembers_fields [simp]:
  "Group_ID (patchMembers req x) = Group_ID x"
  "Group_Name (patchMembers req x) = Group_Name x"
  "Group_OrganizationID (patchMembers req x) = Group_OrganizationID x"
  by (simp_all add: patchMembers_def)

lemma patchMembers_members:
  "u \<in> set (Group_Members (patchMembers req x)) \<longleftrightarrow>
     (u \<in> set (Group_Members x) \<or> u \<in> set (AddUsers req)) \<and> u \<notin> set (RemoveUsers req)"
  by (auto simp: patchMembers_def)

lemma patchMembers_emptyRequest [simp]: "patchMembers emptyRequest x = x"
  by (simp add: patchMembers_def emptyRequest_def)

lemma requestOf_Nil [simp]: "requestOf [] g = emptyRequest"
  by (simp add: requestOf_def)

lemma requestOf_Cons [simp]:
  "requestOf ((g, req) # rest) g' = (if g' = g then req else requestOf rest g')"
  by (simp add: requestOf_def)

lemma requestOf_absent: "g \<notin> fst ` set c \<Longrightarrow> requestOf c g = emptyRequest"
  by (simp add: requestOf_def map_of_eq_None_iff [THEN iffD2])

lemma world_PatchGroup_found:
  assumes "x \<in> set (w_groups w)" "Group_ID x = gid"
  shows "\<exists>patched. world_PatchGroup gid req w =
     (Inr patched,
      w\<lparr>w_groups := map (\<lambda>y. if Group_ID y = gid then patchMembers req y else y) (w_groups w)\<rparr>)"
proof -
  from assms have "find (\<lambda>g. Group_ID g = gid) (w_groups w) \<noteq> None"
    by (auto simp: find_None_iff)
  then show ?thesis by (auto simp: world_PatchGroup_def)
qed

lemma oneScope_map_patch:
  assumes "oneScope orgID w" "\<And>y. Group_ID (f y) = Group_ID y \<and> Group_Name (f y) = Group_Name y
      \<and> Group_OrganizationID (f y) = Group_OrganizationID y"
  shows "oneScope orgID (w\<lparr>w_groups := map f (w_groups w)\<rparr>)"
proof -
  have "Group_Name \<circ> f = Group_Name" "Group_ID \<circ> f = Group_ID"
    using assms(2) by auto
  with assms show ?thesis by (simp add: oneScope_def)
qed

lemma resolves_map_patch:
  assumes "resolves cgs w" "\<And>y. Group_ID (f y) = Group_ID y \<and> Group_Name (f y) = Group_Name y"
  shows "resolves cgs (w\<lparr>w_groups := map f (w_groups w)\<rparr>)"
  unfolding resolves_def
proof (intro allI impI)
  fix name g assume "cgs name = Some g"
  with assms(1) obtain x where "x \<in> set (w_groups w)" "Group_ID x = Group_ID g" "Group_Name x = name"
    unfolding resolves_def by blast
  with assms(2) [of x] have "f x \<in> set (map f (w_groups w))" "Group_ID (f x) = Group_ID g"
    "Group_Name (f x) = name" by simp_all
  then show "\<exists>x \<in> set (w_groups (w\<lparr>w_groups := map f (w_groups w)\<rparr>)).
      Group_ID x = Group_ID g \<and> Group_Name x = name"
    by auto
qed

lemma applyLoop_world:
  "applyLoop worldAdapter lookupUser cgs changes w = (ev, r, w') \<Longrightarrow>
   oneScope orgID w \<Longrightarrow> resolves cgs w \<Longrightarrow> distinct (map fst changes) \<Longrightarrow>
   fst ` set changes \<subseteq> dom cgs \<Longrightarrow>
   r = None \<and> w' = patchedWorld changes w"
proof (induction changes arbitrary: w ev)
  case Nil
  then show ?case by (simp add: patchedWorld_def)
next
  case (Cons entry changes)
  obtain grp req where entry: "entry = (grp, req)" by (cases entry)
  from Cons.prems(5) entry obtain coderGroup where cg: "cgs grp = Some coderGroup" by auto
  let ?gid = "Group_ID coderGroup"
  from Cons.prems(3) cg obtain x0 where x0: "x0 \<in> set (w_groups w)" "Group_ID x0 = ?gid"
      "Group_Name x0 = grp"
    unfolding resolves_def by blast
  let ?P = "\<lambda>y. if Group_ID y = ?gid then patchMembers req y else y"
  let ?w2 = "w\<lparr>w_groups := map ?P (w_groups w)\<rparr>"
  from world_PatchGroup_found [OF x0(1,2), of req] obtain patched where
    pg: "PatchGroup worldAdapter ?gid req w = (Inr patched, ?w2)"
    by (auto simp: worldAdapter_def)
  from Cons.prems(1) [unfolded entry] cg pg
  obtain ev0 where ev0: "applyLoop worldAdapter lookupUser cgs changes ?w2 = (ev0, r, w')"
    by (rule applyLoop_Cons_Inr)
  have fields: "\<And>y. Group_ID (?P y) = Group_ID y \<and> Group_Name (?P y) = Group_Name y
      \<and> Group_OrganizationID (?P y) = Group_OrganizationID y" by simp
  have os2: "oneScope orgID ?w2" using Cons.prems(2) fields by (rule oneScope_map_patch)
  have rs2: "resolves cgs ?w2" using Cons.prems(3) fields by (intro resolves_map_patch) auto
  from Cons.prems(4,5) entry have d: "distinct (map fst changes)" "fst ` set changes \<subseteq> dom cgs"
    and fresh: "grp \<notin> fst ` set changes" by auto
  from Cons.IH [OF ev0 os2 rs2 d] have r: "r = None" and w': "w' = patchedWorld changes ?w2" by simp_all
  have ids: "inj_on Group_ID (set (w_groups w))" and names: "inj_on Group_Name (set (w_groups w))"
    using Cons.prems(2) by (simp_all add: oneScope_def distinct_map)
  have same: "\<And>y. y \<in> set (w_groups w) \<Longrightarrow> (Group_ID y = ?gid \<longleftrightarrow> Group_Name y = grp)"
  proof
    fix y assume y: "y \<in> set (w_groups w)" "Group_ID y = ?gid"
    with x0 have "Group_ID y = Group_ID x0" by simp
    with ids y(1) x0(1) have "y = x0" by (meson inj_onD)
    with x0 show "Group_Name y = grp" by simp
  next
    fix y assume y: "y \<in> set (w_groups w)" "Group_Name y = grp"
    with x0 have "Group_Name y = Group_Name x0" by simp
    with names y(1) x0(1) have "y = x0" by (meson inj_onD)
    with x0 show "Group_ID y = ?gid" by simp
  qed
  have "map (\<lambda>x. patchMembers (requestOf changes (Group_Name x)) x) (map ?P (w_groups w))
      = map (\<lambda>x. patchMembers (requestOf ((grp, req) # changes) (Group_Name x)) x) (w_groups w)"
    unfolding map_map
  proof (rule map_cong [OF refl])
    fix y assume y: "y \<in> set (w_groups w)"
    show "((\<lambda>x. patchMembers (requestOf changes (Group_Name x)) x) \<circ> ?P) y
        = patchMembers (requestOf ((grp, req) # changes) (Group_Name y)) y"
      using same [OF y] requestOf_absent [OF fresh] by auto
  qed
  then have "patchedWorld changes ?w2 = patchedWorld (entry # changes) w"
    by (simp add: patchedWorld_def entry)
  with r w' show ?case by simp
qed

lemma SymmetricDifference_same: "set a = set b \<Longrightarrow> SymmetricDifference a b = ([], [])"
  by (simp add: SymmetricDifference_def Difference_def filter_empty_conv [THEN iffD2])

lemma userGroupsIn_members:
  assumes "distinct (map User_Username (w_users w))" "u \<in> set (w_users w)" "User_Username u \<noteq> []"
  shows "userGroupsIn w u = filter (\<lambda>g. User_ID u \<in> set (Group_Members g)) (w_groups w)"
proof -
  from assms(1) have inj: "inj_on User_Username (set (w_users w))" by (simp add: distinct_map)
  have "\<And>g. isMember w (User_Username u) g \<longleftrightarrow> User_ID u \<in> set (Group_Members g)"
  proof
    fix g :: Group assume "isMember w (User_Username u) g"
    then obtain u' where u': "u' \<in> set (w_users w)" "User_Username u' = User_Username u"
        "User_ID u' \<in> set (Group_Members g)"
      by (auto simp: isMember_def list_ex_iff)
    with inj assms(2) have "u' = u" by (meson inj_onD)
    with u'(3) show "User_ID u \<in> set (Group_Members g)" by simp
  next
    fix g :: Group assume "User_ID u \<in> set (Group_Members g)"
    with assms(2) show "isMember w (User_Username u) g"
      by (auto simp: isMember_def list_ex_iff)
  qed
  with assms(3) show ?thesis by (simp add: userGroupsIn_def)
qed

lemma diffIn_sets:
  "set (fst (diffIn unicodeLower orgID w u)) =
     (set (fst (ExpectedCoderGroups unicodeLower (directoryOf w u))) \<union> {everyoneGroupOf orgID (userGroupsIn w u)})
       - Group_Name ` set (userGroupsIn w u)"
  "set (snd (diffIn unicodeLower orgID w u)) =
     Group_Name ` set (userGroupsIn w u)
       - (set (fst (ExpectedCoderGroups unicodeLower (directoryOf w u))) \<union> {everyoneGroupOf orgID (userGroupsIn w u)})"
  by (simp_all add: diffIn_def userDiff_def SymmetricDifference_def set_Difference expectedOf_def
        cGroupNamesOf_eq)

lemma changesOf_user:
  assumes "distinct (map User_ID users)" "u \<in> set users" "eligible domain u"
  shows "User_ID u \<in> set (AddUsers (requestOf (changesOf unicodeLower domain orgID w users []) n))
          \<longleftrightarrow> n \<in> set (fst (diffIn unicodeLower orgID w u))"
    and "User_ID u \<in> set (RemoveUsers (requestOf (changesOf unicodeLower domain orgID w users []) n))
          \<longleftrightarrow> n \<in> set (snd (diffIn unicodeLower orgID w u))"
proof -
  from assms(1) have inj: "inj_on User_ID (set users)" by (simp add: distinct_map)
  have same: "\<And>u'. u' \<in> set users \<Longrightarrow> User_ID u' = User_ID u \<Longrightarrow> u' = u"
    using inj assms(2) by (meson inj_onD)
  show "User_ID u \<in> set (AddUsers (requestOf (changesOf unicodeLower domain orgID w users []) n))
          \<longleftrightarrow> n \<in> set (fst (diffIn unicodeLower orgID w u))"
    unfolding changesOf_AddUsers using assms(2,3) same by (auto simp: emptyRequest_def)
  show "User_ID u \<in> set (RemoveUsers (requestOf (changesOf unicodeLower domain orgID w users []) n))
          \<longleftrightarrow> n \<in> set (snd (diffIn unicodeLower orgID w u))"
    unfolding changesOf_RemoveUsers using assms(2,3) same by (auto simp: emptyRequest_def)
qed

lemma second_diff_empty:
  assumes os': "oneScope orgID w'"
    and keys: "fst ` set (changesOf unicodeLower domain orgID w (w_users w) []) \<subseteq> Group_Name ` set (w_groups w')"
    and grps: "w_groups w' = w_groups w @ news"
      "\<forall>g \<in> set news. Group_Members g = [] \<and> Group_ID g \<noteq> orgID"
    and same: "w_users w' = w_users w" "w_directory w' = w_directory w"
    and users: "distinct (map User_ID (w_users w))" "distinct (map User_Username (w_users w))"
      "\<forall>u \<in> set (w_users w). User_Username u \<noteq> []"
    and every: "\<forall>g \<in> set (w_groups w). Group_ID g = orgID \<longrightarrow>
        (\<forall>u \<in> set (w_users w). eligible domain u \<longrightarrow> User_ID u \<in> set (Group_Members g))"
    and u: "u \<in> set (w_users w)" "eligible domain u"
  shows "diffIn unicodeLower orgID (patchedWorld (changesOf unicodeLower domain orgID w (w_users w) []) w') u = ([], [])"
proof -
  let ?ch = "changesOf unicodeLower domain orgID w (w_users w) []"
  let ?uid = "User_ID u"
  let ?cg1 = "userGroupsIn w u"
  let ?A1 = "Group_Name ` set ?cg1"
  let ?e1 = "everyoneGroupOf orgID ?cg1"
  let ?X1 = "set (fst (ExpectedCoderGroups unicodeLower (directoryOf w u))) \<union> {?e1}"
  let ?w1 = "patchedWorld ?ch w'"
  let ?cg2 = "userGroupsIn ?w1 u"
  let ?patch = "\<lambda>y. patchMembers (requestOf ?ch (Group_Name y)) y"
  have name_u: "User_Username u \<noteq> []" using users(3) u(1) by simp
  have cg1: "?cg1 = filter (\<lambda>g. ?uid \<in> set (Group_Members g)) (w_groups w)"
    using users(2) u(1) name_u by (rule userGroupsIn_members)
  have users1: "w_users ?w1 = w_users w" "w_directory ?w1 = w_directory w"
    "w_groups ?w1 = map ?patch (w_groups w')"
    using same by (simp_all add: patchedWorld_def)
  have cg2: "?cg2 = filter (\<lambda>g. ?uid \<in> set (Group_Members g)) (w_groups ?w1)"
    by (rule userGroupsIn_members) (simp_all add: users1 users(2) u(1) name_u)
  have dir: "directoryOf ?w1 u = directoryOf w u"
    by (simp add: directoryOf_def users1)
  have names': "inj_on Group_Name (set (w_groups w'))" and ids': "inj_on Group_ID (set (w_groups w'))"
    using os' by (simp_all add: oneScope_def distinct_map)
  have add: "\<And>n. ?uid \<in> set (AddUsers (requestOf ?ch n)) \<longleftrightarrow> n \<in> ?X1 \<and> n \<notin> ?A1"
    using changesOf_user(1) [OF users(1) u, of unicodeLower orgID w] diffIn_sets(1) [of unicodeLower orgID w u] by auto
  have rem: "\<And>n. ?uid \<in> set (RemoveUsers (requestOf ?ch n)) \<longleftrightarrow> n \<in> ?A1 \<and> n \<notin> ?X1"
    using changesOf_user(2) [OF users(1) u, of unicodeLower orgID w] diffIn_sets(2) [of unicodeLower orgID w u] by auto
  have member: "\<And>y. y \<in> set (w_groups w') \<Longrightarrow>
      (?uid \<in> set (Group_Members y) \<longleftrightarrow> Group_Name y \<in> ?A1)"
  proof
    fix y assume y: "y \<in> set (w_groups w')" "?uid \<in> set (Group_Members y)"
    with grps have "y \<in> set (w_groups w)" by auto
    with y(2) show "Group_Name y \<in> ?A1" unfolding cg1 by auto
  next
    fix y assume y: "y \<in> set (w_groups w')" "Group_Name y \<in> ?A1"
    then obtain y0 where y0: "y0 \<in> set (w_groups w)" "?uid \<in> set (Group_Members y0)"
        "Group_Name y0 = Group_Name y"
      unfolding cg1 by auto
    with grps(1) have "y0 \<in> set (w_groups w')" by simp
    with names' y(1) y0(3) have "y0 = y" by (meson inj_onD)
    with y0(2) show "?uid \<in> set (Group_Members y)" by simp
  qed
  have member2: "\<And>y. y \<in> set (w_groups w') \<Longrightarrow>
      (?uid \<in> set (Group_Members (?patch y)) \<longleftrightarrow> Group_Name y \<in> ?X1)"
    unfolding patchMembers_members add rem using member by blast
  have exists: "\<And>n. n \<in> ?X1 \<Longrightarrow> \<exists>y \<in> set (w_groups w'). Group_Name y = n"
  proof -
    fix n assume n: "n \<in> ?X1"
    show "\<exists>y \<in> set (w_groups w'). Group_Name y = n"
    proof (cases "n \<in> ?A1")
      case True
      then obtain y0 where "y0 \<in> set (w_groups w)" "Group_Name y0 = n" unfolding cg1 by auto
      with grps(1) show ?thesis by auto
    next
      case False
      with n have "n \<in> set (fst (diffIn unicodeLower orgID w u))" unfolding diffIn_sets by simp
      with u have "n \<in> fst ` set ?ch" unfolding changesOf_keys by blast
      with keys have "n \<in> Group_Name ` set (w_groups w')" by (rule subsetD)
      then show ?thesis by auto
    qed
  qed
  have names2: "Group_Name ` set ?cg2 = ?X1"
  proof (intro set_eqI iffI)
    fix n assume "n \<in> Group_Name ` set ?cg2"
    then obtain y where y: "y \<in> set (w_groups w')" "?uid \<in> set (Group_Members (?patch y))"
        "n = Group_Name y"
      unfolding cg2 users1 by auto
    from member2 [OF y(1)] y(2) have "Group_Name y \<in> ?X1" by blast
    with y(3) show "n \<in> ?X1" by blast
  next
    fix n assume n: "n \<in> ?X1"
    from exists [OF this] obtain y where y: "y \<in> set (w_groups w')" "Group_Name y = n" by blast
    from n y(2) have "Group_Name y \<in> ?X1" by blast
    with member2 [OF y(1)] have "?uid \<in> set (Group_Members (?patch y))" by blast
    with y(1) have "?patch y \<in> set ?cg2" unfolding cg2 users1 by simp
    moreover have "Group_Name (?patch y) = n" using y(2) by simp
    ultimately show "n \<in> Group_Name ` set ?cg2" by blast
  qed
  have ids2: "distinct (map Group_ID ?cg2)"
  proof -
    have "map Group_ID (w_groups ?w1) = map Group_ID (w_groups w')"
      unfolding users1 by simp
    moreover have "distinct (map Group_ID (w_groups w'))" using os' by (simp add: oneScope_def)
    ultimately have "distinct (map Group_ID (w_groups ?w1))" by simp
    then show ?thesis unfolding cg2 by (rule distinct_map_filter)
  qed
  have ids1: "distinct (map Group_ID ?cg1)"
  proof -
    have "distinct (map Group_ID (w_groups w'))" using os' by (simp add: oneScope_def)
    then have "distinct (map Group_ID (w_groups w))" unfolding grps(1) by simp
    then show ?thesis unfolding cg1 by (rule distinct_map_filter)
  qed
  have e2: "everyoneGroupOf orgID ?cg2 = ?e1"
  proof (cases "\<exists>g \<in> set ?cg1. Group_ID g = orgID")
    case True
    then obtain g where g: "g \<in> set ?cg1" "Group_ID g = orgID" by blast
    from everyoneGroupOf_unique [OF ids1 g] have e1: "?e1 = Group_Name g" .
    from g(1) have gw: "g \<in> set (w_groups w')" unfolding cg1 grps(1) by simp
    have "Group_Name g \<in> ?X1" using e1 by auto
    with member2 [OF gw] have "?uid \<in> set (Group_Members (?patch g))" by blast
    with gw have "?patch g \<in> set ?cg2" unfolding cg2 users1 by simp
    moreover have "Group_ID (?patch g) = orgID" using g(2) by simp
    ultimately have "everyoneGroupOf orgID ?cg2 = Group_Name (?patch g)"
      using everyoneGroupOf_unique [OF ids2] by blast
    with e1 show ?thesis by simp
  next
    case False
    then have e1: "?e1 = ''Everyone''" by (simp add: everyoneGroupOf_none)
    have none: "\<forall>y \<in> set (w_groups w'). Group_ID y \<noteq> orgID"
    proof
      fix y assume y: "y \<in> set (w_groups w')"
      show "Group_ID y \<noteq> orgID"
      proof
        assume o: "Group_ID y = orgID"
        with y grps have yw: "y \<in> set (w_groups w)" by auto
        with every o u have "?uid \<in> set (Group_Members y)" by blast
        with yw have "y \<in> set ?cg1" unfolding cg1 by simp
        with o False show False by blast
      qed
    qed
    have "\<forall>x \<in> set ?cg2. Group_ID x \<noteq> orgID"
      unfolding cg2 users1 using none by auto
    then have "everyoneGroupOf orgID ?cg2 = ''Everyone''" by (rule everyoneGroupOf_none)
    with e1 show ?thesis by simp
  qed
  have "set (cGroupNamesOf orgID ?cg2) = set (expectedOf unicodeLower orgID ?cg2 (directoryOf ?w1 u))"
    unfolding cGroupNamesOf_eq expectedOf_def dir e2 using names2 by simp
  then show ?thesis unfolding diffIn_def userDiff_def by (rule SymmetricDifference_same)
qed

lemma fold_groupMap:
  "fold (\<lambda>grp m. m(Group_Name grp \<mapsto> grp)) gs m name = Some g \<Longrightarrow>
   (g \<in> set gs \<and> Group_Name g = name) \<or> m name = Some g"
proof (induction gs arbitrary: m)
  case Nil
  then show ?case by simp
next
  case (Cons a gs)
  from Cons.prems have "fold (\<lambda>grp m. m(Group_Name grp \<mapsto> grp)) gs (m(Group_Name a \<mapsto> a)) name = Some g"
    by (simp only: fold.simps comp_apply)
  from Cons.IH [OF this] show ?case by (auto split: if_splits)
qed

lemma groupMap_Some: "groupMap gs name = Some g \<Longrightarrow> g \<in> set gs \<and> Group_Name g = name"
  using fold_groupMap [of gs Map.empty name g] by (simp add: groupMap_def)

lemma resolves_groupMap: "set gs \<subseteq> set (w_groups w) \<Longrightarrow> resolves (groupMap gs) w"
  unfolding resolves_def using groupMap_Some by blast

lemma world_coderGroups:
  "\<exists>gs. set gs \<subseteq> set (w_groups w) \<and> coderGroups worldAdapter orgID w = Inr (groupMap gs)"
proof -
  obtain gs where gs: "Groups worldAdapter (orgGroupArguments orgID) w = Inr gs"
    and sub: "set gs \<subseteq> set (w_groups w)"
    by (simp add: worldAdapter_def world_Groups_def)
  from gs have "coderGroups worldAdapter orgID w = Inr (groupMap gs)"
    by (simp add: coderGroups_def)
  with sub show ?thesis by blast
qed

lemma failedGroups_mono: "set ev \<subseteq> set ev' \<Longrightarrow> failedGroups ev \<subseteq> failedGroups ev'"
  by (auto simp: failedGroups_def)

lemma world_defaultOrganization:
  "w_orgs w' = w_orgs w \<Longrightarrow> defaultOrganization worldAdapter w' = defaultOrganization worldAdapter w"
  by (simp add: defaultOrganization_def worldAdapter_def)

text \<open>
  Idempotence within one organization. In a state of the target where every group
  belongs to the default organization, where names and IDs identify groups and users,
  and where the group with the organization's ID (if there is one) contains every
  eligible user: when a run of \<open>SyncGroups\<close> ends without error and without a failed
  creation, a second run on the state it leaves finds nothing to change, sends no
  creation and no patch, and leaves the state as it is.
\<close>

lemma idempotent_in_one_organization:
  assumes dflt: "defaultOrganization worldAdapter w = Inr org"
    and os: "oneScope (Org_ID org) w"
    and users: "distinct (map User_ID (w_users w))" "distinct (map User_Username (w_users w))"
      "\<forall>u \<in> set (w_users w). User_Username u \<noteq> []"
    and every: "\<forall>g \<in> set (w_groups w). Group_ID g = Org_ID org \<longrightarrow>
        (\<forall>u \<in> set (w_users w). eligible domain u \<longrightarrow> User_ID u \<in> set (Group_Members g))"
    and run: "SyncGroups unicodeLower worldAdapter domain w = (ev1, Done, w1)"
    and ok: "failedGroups ev1 = {}"
  shows "\<exists>ev2. SyncGroups unicodeLower worldAdapter domain w1 =
            (ev2 @ [LogNoChanges (length (filter (eligible domain) (w_users w)))], Done, w1)
          \<and> (\<forall>e \<in> set ev2. \<not> isMutation e)"
proof -
  let ?o = "Org_ID org"
  let ?ch = "changesOf unicodeLower domain ?o w (w_users w) []"
  let ?n = "length (filter (eligible domain) (w_users w))"
  obtain gs where gs: "set gs \<subseteq> set (w_groups w)"
    and cg: "coderGroups worldAdapter ?o w = Inr (groupMap gs)"
    using world_coderGroups by blast
  have us: "Users worldAdapter w = Inr (w_users w)" by (simp add: worldAdapter_def)
  obtain ev st where ul: "usersLoop unicodeLower worldAdapter domain ?o w (w_users w) initial_state = (ev, Inr st)"
    and ch: "coderGroupChanges st = ?ch"
    using usersLoop_world [of unicodeLower domain ?o w "w_users w" initial_state]
    by (auto simp: initial_state_def)
  note sg = SyncGroups_after_loop [OF dflt cg us ul]
  note report = SyncGroups_no_changes_report [OF dflt cg us ul]
  show ?thesis
  proof (cases "?ch = []")
    case True
    with ch report have eq: "SyncGroups unicodeLower worldAdapter domain w =
        (setupEvents ?o @ ev @ [LogNoChanges ?n], Done, w)"
      and quiet: "\<forall>e \<in> set (fst (SyncGroups unicodeLower worldAdapter domain w)). \<not> isMutation e"
      by simp_all
    from eq run have "w1 = w" by simp
    moreover from quiet eq have "\<forall>e \<in> set (setupEvents ?o @ ev). \<not> isMutation e" by simp
    ultimately show ?thesis using eq by (intro exI [of _ "setupEvents ?o @ ev"]) simp
  next
    case False
    with ch have ne: "coderGroupChanges st \<noteq> []" by simp
    from finishSync_nonempty [OF ne, of worldAdapter ?o "groupMap gs" w]
    obtain evc cgs' ch' created w' eva r w'' where
      cl: "createLoop worldAdapter ?o (map fst ?ch) (groupMap gs, ?ch, [], w)
            = (evc, cgs', ch', created, w')"
      and al: "applyLoop worldAdapter (userByID st) cgs' ch' w' = (eva, r, w'')"
      and evs: "fst (finishSync worldAdapter ?o (groupMap gs) st w)
            = evc @ (if length created > 0 then [LogCreated created] else []) @ eva"
      and fin: "snd (snd (finishSync worldAdapter ?o (groupMap gs) st w)) = w''"
      unfolding ch by blast
    from sg run fin have w1: "w1 = w''" by (simp add: prod_eq_iff)
    from sg run evs have "set evc \<subseteq> set ev1" by (auto simp: prod_eq_iff)
    from failedGroups_mono [OF this] ok have nofail: "failedGroups evc = {}" by simp
    from createLoop_changes [OF cl] nofail have ch': "ch' = ?ch" by simp
    from createLoop_world [OF cl os resolves_groupMap [OF gs]] obtain news where
      os': "oneScope ?o w'" and res': "resolves cgs' w'"
      and same: "w_users w' = w_users w" "w_orgs w' = w_orgs w" "w_directory w' = w_directory w"
      and grps: "w_groups w' = w_groups w @ news"
        "\<forall>g \<in> set news. Group_Members g = [] \<and> Group_ID g \<noteq> ?o"
      by blast
    from createLoop_resolved [OF cl] nofail have dom: "fst ` set ?ch \<subseteq> dom cgs'" by auto
    have dist: "distinct (map fst ?ch)" by (rule changesOf_distinct) simp
    from applyLoop_world [OF al [unfolded ch'] os' res' dist dom]
    have w'': "w'' = patchedWorld ?ch w'" by simp
    have keys: "fst ` set ?ch \<subseteq> Group_Name ` set (w_groups w')"
    proof
      fix g assume "g \<in> fst ` set ?ch"
      with dom obtain x where "cgs' g = Some x" by blast
      with res' show "g \<in> Group_Name ` set (w_groups w')" unfolding resolves_def by force
    qed
    have empty: "\<forall>u \<in> set (w_users w). eligible domain u \<longrightarrow> diffIn unicodeLower ?o w1 u = ([], [])"
      unfolding w1 w''
      using second_diff_empty [OF os' keys grps same(1,3) users every] by blast
    have users1: "w_users w1 = w_users w" "w_orgs w1 = w_orgs w"
      unfolding w1 w'' using same by (simp_all add: patchedWorld_def)
    have dflt1: "defaultOrganization worldAdapter w1 = Inr org"
      using world_defaultOrganization [OF users1(2)] dflt by simp
    obtain gs1 where cg1: "coderGroups worldAdapter ?o w1 = Inr (groupMap gs1)"
      using world_coderGroups by blast
    have us1: "Users worldAdapter w1 = Inr (w_users w)" by (simp add: worldAdapter_def users1)
    obtain ev' st' where ul1: "usersLoop unicodeLower worldAdapter domain ?o w1 (w_users w) initial_state = (ev', Inr st')"
      and ch1: "coderGroupChanges st' = changesOf unicodeLower domain ?o w1 (w_users w) []"
      using usersLoop_world [of unicodeLower domain ?o w1 "w_users w" initial_state]
      by (auto simp: initial_state_def)
    from ch1 changesOf_nothing [OF empty] have none: "coderGroupChanges st' = []" by simp
    from SyncGroups_no_changes_report [OF dflt1 cg1 us1 ul1] none
    have eq: "SyncGroups unicodeLower worldAdapter domain w1 = (setupEvents ?o @ ev' @ [LogNoChanges ?n], Done, w1)"
      and quiet: "\<forall>e \<in> set (fst (SyncGroups unicodeLower worldAdapter domain w1)). \<not> isMutation e"
      by simp_all
    from quiet eq have "\<forall>e \<in> set (setupEvents ?o @ ev'). \<not> isMutation e" by simp
    then show ?thesis using eq by (intro exI [of _ "setupEvents ?o @ ev'"]) simp
  qed
qed

text \<open>
  The lemma applies to the example of the README: after the run that moves the user from
  \<open>catlovers\<close> to \<open>doglovers\<close>, the next run reports that there is nothing to change.
\<close>

lemma idempotent_in_one_organization_example:
  "\<exists>ev2. SyncGroups unicodeLower worldAdapter ''example.com'' world_readme_synced =
            (ev2 @ [LogNoChanges 1], Done, world_readme_synced)
          \<and> (\<forall>e \<in> set ev2. \<not> isMutation e)"
proof -
  have dflt: "defaultOrganization worldAdapter world_readme = Inr \<lparr>Org_ID = ''org-a'', Org_IsDefault = True\<rparr>"
    by (simp add: defaultOrganization_def worldAdapter_def world_readme_def)
  have os: "oneScope (Org_ID \<lparr>Org_ID = ''org-a'', Org_IsDefault = True\<rparr>) world_readme"
    by (simp add: oneScope_def world_readme_def everyoneA_def grpCats_def)
  have users: "distinct (map User_ID (w_users world_readme))"
      "distinct (map User_Username (w_users world_readme))"
      "\<forall>u \<in> set (w_users world_readme). User_Username u \<noteq> []"
    by (simp_all add: world_readme_def bob_def carol_def dave_def)
  have every: "\<forall>g \<in> set (w_groups world_readme).
      Group_ID g = Org_ID \<lparr>Org_ID = ''org-a'', Org_IsDefault = True\<rparr> \<longrightarrow>
        (\<forall>u \<in> set (w_users world_readme). eligible ''example.com'' u \<longrightarrow>
           User_ID u \<in> set (Group_Members g))"
    by (simp add: world_readme_def everyoneA_def grpCats_def bob_def carol_def dave_def
          eligible_def LoginTypeOIDC_def HasSuffix_def)
  have run: "SyncGroups unicodeLower worldAdapter ''example.com'' world_readme =
      ([CallOrganizations, CallGroups \<lparr>Organization = ''org-a'', HasMember = []\<rparr>, CallUsers,
        CallGoogleGroups ''bob@example.com'', CallGroups \<lparr>Organization = [], HasMember = ''bob''\<rparr>,
        CallCreateGroup ''org-a'' (newGroupRequest ''doglovers''),
        LogCreated [\<lparr>Group_ID = ''g-1'', Group_Name = ''doglovers'',
                      Group_OrganizationID = ''org-a'', Group_Members = []\<rparr>],
        CallPatchGroup ''g-1'' addBob,
        LogGroupPatched ''doglovers'' 1 0 [''bob@example.com''] [],
        CallPatchGroup ''g-cat'' removeBob,
        LogGroupPatched ''catlovers'' 0 1 [] [''bob@example.com'']],
       Done, world_readme_synced)"
    by code_simp
  have ok: "failedGroups
      [CallOrganizations, CallGroups \<lparr>Organization = ''org-a'', HasMember = []\<rparr>, CallUsers,
        CallGoogleGroups ''bob@example.com'', CallGroups \<lparr>Organization = [], HasMember = ''bob''\<rparr>,
        CallCreateGroup ''org-a'' (newGroupRequest ''doglovers''),
        LogCreated [\<lparr>Group_ID = ''g-1'', Group_Name = ''doglovers'',
                      Group_OrganizationID = ''org-a'', Group_Members = []\<rparr>],
        CallPatchGroup ''g-1'' addBob,
        LogGroupPatched ''doglovers'' 1 0 [''bob@example.com''] [],
        CallPatchGroup ''g-cat'' removeBob,
        LogGroupPatched ''catlovers'' 0 1 [] [''bob@example.com'']] = {}"
    by (simp add: failedGroups_def)
  have n: "length (filter (eligible ''example.com'') (w_users world_readme)) = 1"
    by (simp add: world_readme_def bob_def carol_def dave_def eligible_def LoginTypeOIDC_def
          HasSuffix_def)
  from idempotent_in_one_organization [OF dflt os users every run ok] n show ?thesis by simp
qed

subsection \<open>Where the code departs from the specification\<close>

text \<open>
  Claim C4. \<open>SyncGroups\<close> stops with "default organization not found" right after the
  listing of the organizations (lemma \<open>SyncGroups_no_default_organization\<close>). The
  stand-alone \<open>main.go\<close> has no such check: with no default organization it goes on with
  the zero organization, lists groups and users, computes the diff of the user and asks
  for the creation of a group.
\<close>

theorem main_go_without_default_organization:
  "SyncGroups unicodeLower worldAdapter ''example.com'' world_no_default =
     ([CallOrganizations], Returned ''default organization not found'', world_no_default)
   \<and> main_go unicodeLower worldAdapter ''example.com'' world_no_default =
     ([CallOrganizations,
       CallGroups \<lparr>Organization = ''00000000-0000-0000-0000-000000000000'', HasMember = []\<rparr>,
       CallUsers,
       CallGoogleGroups ''bob@example.com'',
       CallGroups \<lparr>Organization = [], HasMember = ''bob''\<rparr>,
       CallCreateGroup ''00000000-0000-0000-0000-000000000000'' (newGroupRequest ''catlovers''),
       LogCreateFailed ''catlovers'' ''organization not found'',
       LogNoChanges 1],
      Done, world_no_default)"
  by code_simp

text \<open>
  Claim C5. \<open>SyncGroups\<close> reports "no changes" exactly when the change set is empty after
  the loop over the users, and then stops without any creation or patch (lemma
  \<open>SyncGroups_no_changes_report\<close>). The stand-alone \<open>main.go\<close> tests the change set only
  after the creation loop: when the one change of the run is for a group whose creation
  fails, the change set after the loop over the users is not empty, a creation is
  attempted, and the run still reports "no changes".
\<close>

theorem main_go_reports_no_changes_after_failed_creation:
  "changesAfterLoop (usersLoop unicodeLower worldAdapter ''example.com'' ''org-a'' world_refused [bob] initial_state)
     = [(''dog_lovers'', addBob)]
   \<and> main_go unicodeLower worldAdapter ''example.com'' world_refused =
     ([CallOrganizations,
       CallGroups \<lparr>Organization = ''org-a'', HasMember = []\<rparr>,
       CallUsers,
       CallGoogleGroups ''bob@example.com'',
       CallGroups \<lparr>Organization = [], HasMember = ''bob''\<rparr>,
       CallCreateGroup ''org-a'' (newGroupRequest ''dog_lovers''),
       LogCreateFailed ''dog_lovers'' ''name refused'',
       LogNoChanges 1],
      Done, world_refused)
   \<and> SyncGroups unicodeLower worldAdapter ''example.com'' world_refused =
     ([CallOrganizations,
       CallGroups \<lparr>Organization = ''org-a'', HasMember = []\<rparr>,
       CallUsers,
       CallGoogleGroups ''bob@example.com'',
       CallGroups \<lparr>Organization = [], HasMember = ''bob''\<rparr>,
       CallCreateGroup ''org-a'' (newGroupRequest ''dog_lovers''),
       LogCreateFailed ''dog_lovers'' ''name refused''],
      Done, world_refused)"
  by code_simp

text \<open>
  Claim C6. The listing of all groups and the creations carry the ID of the default
  organization, but the listing of one user's groups sets \<open>HasMember\<close> only. With a second
  organization, the current names of the user contain the group \<open>ops\<close> of that
  organization; it is put on the list to remove, and a group of that name is created in
  the default organization and patched.
\<close>

theorem user_groups_listed_across_organizations:
  "userGroupArguments bob = \<lparr>Organization = [], HasMember = ''bob''\<rparr>
   \<and> Groups worldAdapter (userGroupArguments bob) world_two_orgs = Inr [everyoneA, everyoneB, opsB]
   \<and> Group_OrganizationID opsB = ''org-b''
   \<and> defaultOrganization worldAdapter world_two_orgs = Inr \<lparr>Org_ID = ''org-a'', Org_IsDefault = True\<rparr>
   \<and> cGroupNamesOf ''org-a'' [everyoneA, everyoneB, opsB] = [''Everyone'', ''Everyone'', ''ops'']
   \<and> userDiff unicodeLower ''org-a'' [everyoneA, everyoneB, opsB] [] = ([], [''ops''])
   \<and> fst (SyncGroups unicodeLower worldAdapter ''example.com'' world_two_orgs) =
       [CallOrganizations,
        CallGroups \<lparr>Organization = ''org-a'', HasMember = []\<rparr>,
        CallUsers,
        CallGoogleGroups ''bob@example.com'',
        CallGroups \<lparr>Organization = [], HasMember = ''bob''\<rparr>,
        CallCreateGroup ''org-a'' (newGroupRequest ''ops''),
        LogCreated [newOps],
        CallPatchGroup ''g-1'' removeBob,
        LogGroupPatched ''ops'' 0 1 [] [''bob@example.com'']]"
  by code_simp

text \<open>
  Claim C2. Within one organization the second run finds nothing to change (lemma
  \<open>idempotent_in_one_organization\<close>). In the state with two organizations the first run
  ends without any failure: the creation and the patch succeed. The second run, on the
  state the first run left, again ends the loop over the users with a change set that is
  not empty, and sends the same patch again.
\<close>

theorem second_run_changes_again:
  "SyncGroups unicodeLower worldAdapter ''example.com'' world_two_orgs =
     ([CallOrganizations,
       CallGroups \<lparr>Organization = ''org-a'', HasMember = []\<rparr>,
       CallUsers,
       CallGoogleGroups ''bob@example.com'',
       CallGroups \<lparr>Organization = [], HasMember = ''bob''\<rparr>,
       CallCreateGroup ''org-a'' (newGroupRequest ''ops''),
       LogCreated [newOps],
       CallPatchGroup ''g-1'' removeBob,
       LogGroupPatched ''ops'' 0 1 [] [''bob@example.com'']],
      Done, world_two_orgs_synced)
   \<and> changesAfterLoop
       (usersLoop unicodeLower worldAdapter ''example.com'' ''org-a'' world_two_orgs_synced [bob] initial_state)
     = [(''ops'', removeBob)]
   \<and> SyncGroups unicodeLower worldAdapter ''example.com'' world_two_orgs_synced =
     ([CallOrganizations,
       CallGroups \<lparr>Organization = ''org-a'', HasMember = []\<rparr>,
       CallUsers,
       CallGoogleGroups ''bob@example.com'',
       CallGroups \<lparr>Organization = [], HasMember = ''bob''\<rparr>,
       CallPatchGroup ''g-1'' removeBob,
       LogGroupPatched ''ops'' 0 1 [] [''bob@example.com'']],
      Done, world_two_orgs_synced)"
  by code_simp

end
